theory Spec2Isabelle
  imports Complex_Main "HOL-Library.Product_Lexorder" "HOL-Library.Sublist"
begin

section \<open>Retention of date-partitioned indices: backuper/backuperV6.py\<close>

text \<open>
  The script lists the indices of a search cluster, keeps those whose name ends in a date
  older than a number of days, and either snapshots and deletes them
  (\<open>list_backup_delete_old_indices\<close>) or deletes them (\<open>list_delete_old_indices\<close>).
  Python's unbounded integers are \<open>int\<close>; strings are \<open>string\<close> (index names are taken
  to be ASCII); every call that leaves the process (cluster client, clock, file system,
  sleep) is an operation of an environment over an abstract world \<open>'w\<close>, and is logged with
  its result in a trace, so that what the code called, and in which order, can be stated.
\<close>

subsection \<open>Exceptions\<close>

text \<open>
  The exception classes the two functions can meet. \<open>RequestError\<close>, \<open>ConnectionError\<close>,
  \<open>AuthorizationException\<close> are classes of \<open>opensearchpy.exceptions\<close>, all below
  \<open>TransportError\<close>; \<open>ConnectionTimeout\<close> is a subclass of \<open>ConnectionError\<close>.
  \<open>Exception m\<close> is a plain \<open>Exception(m)\<close>. \<open>KeyboardInterrupt\<close> is a \<open>BaseException\<close>
  that is not an \<open>Exception\<close>: no handler of the script catches it.
\<close>

datatype exn =
    RequestError
  | ConnectionError
  | ConnectionTimeout
  | AuthorizationException
  | TransportError
  | ValueError
  | KeyError
  | IndexError
  | TypeError
  | ZeroDivisionError
  | OSError
  | Exception string
  | KeyboardInterrupt

text \<open>\<open>except C as e\<close> matches when \<open>isinstance(e, C)\<close>.\<close>

definition isinstance_RequestError :: "exn \<Rightarrow> bool" where
  "isinstance_RequestError e = (e = RequestError)"

definition isinstance_ConnectionError :: "exn \<Rightarrow> bool" where
  "isinstance_ConnectionError e = (e = ConnectionError \<or> e = ConnectionTimeout)"

definition isinstance_AuthorizationException :: "exn \<Rightarrow> bool" where
  "isinstance_AuthorizationException e = (e = AuthorizationException)"

definition isinstance_Exception :: "exn \<Rightarrow> bool" where
  "isinstance_Exception e = (e \<noteq> KeyboardInterrupt)"

subsection \<open>JSON values returned by the client\<close>

datatype json =
    JNull
  | JNum int
  | JStr string
  | JList "json list"
  | JDict "(string \<times> json) list"

text \<open>\<open>v[k]\<close> for a string key \<open>k\<close>, and \<open>v[0]\<close>, with the errors Python raises.\<close>

fun getitem_key :: "json \<Rightarrow> string \<Rightarrow> exn + json" where
  "getitem_key (JDict kvs) k = (case map_of kvs k of None \<Rightarrow> Inl KeyError | Some v \<Rightarrow> Inr v)"
| "getitem_key _ k = Inl TypeError"

fun getitem_0 :: "json \<Rightarrow> exn + json" where
  "getitem_0 (JList []) = Inl IndexError"
| "getitem_0 (JList (x # xs)) = Inr x"
| "getitem_0 (JStr []) = Inl IndexError"
| "getitem_0 (JStr (c # cs)) = Inr (JStr [c])"
| "getitem_0 (JDict kvs) = Inl KeyError"
| "getitem_0 _ = Inl TypeError"

text \<open>\<open>snapshot_status["snapshots"][0]["state"]\<close> (lines 103 and 105).\<close>

definition snapshot_state :: "json \<Rightarrow> exn + json" where
  "snapshot_state snapshot_status =
     (case getitem_key snapshot_status ''snapshots'' of
        Inl e \<Rightarrow> Inl e
      | Inr snapshots \<Rightarrow>
          (case getitem_0 snapshots of
             Inl e \<Rightarrow> Inl e
           | Inr first \<Rightarrow> getitem_key first ''state''))"

subsection \<open>Dates: \<open>datetime\<close>, \<open>strptime\<close>, subtraction\<close>

record datetime =
  year :: int
  month :: int
  day :: int
  hour :: int
  minute :: int
  second :: int
  microsecond :: int

record timedelta =
  days :: int
  seconds :: int
  microseconds :: int

definition is_leap :: "int \<Rightarrow> bool" where
  "is_leap y = (y mod 4 = 0 \<and> (y mod 100 \<noteq> 0 \<or> y mod 400 = 0))"

definition DAYS_IN_MONTH :: "int list" where
  "DAYS_IN_MONTH = [31, 28, 31, 30, 31, 30, 31, 31, 30, 31, 30, 31]"

definition days_in_month :: "int \<Rightarrow> int \<Rightarrow> int" where
  "days_in_month y m = (if m = 2 \<and> is_leap y then 29 else DAYS_IN_MONTH ! nat (m - 1))"

definition days_before_year :: "int \<Rightarrow> int" where
  "days_before_year y = (y - 1) * 365 + (y - 1) div 4 - (y - 1) div 100 + (y - 1) div 400"

definition days_before_month :: "int \<Rightarrow> int \<Rightarrow> int" where
  "days_before_month y m =
     sum_list (take (nat (m - 1)) DAYS_IN_MONTH) + (if m > 2 \<and> is_leap y then 1 else 0)"

definition toordinal :: "datetime \<Rightarrow> int" where
  "toordinal d = days_before_year (year d) + days_before_month (year d) (month d) + day d"

text \<open>The constructor of \<open>date\<close> raises ValueError outside these ranges.\<close>

definition valid_date :: "int \<Rightarrow> int \<Rightarrow> int \<Rightarrow> bool" where
  "valid_date y m d = (1 \<le> y \<and> y \<le> 9999 \<and> 1 \<le> m \<and> m \<le> 12 \<and> 1 \<le> d \<and> d \<le> days_in_month y m)"

definition valid_time :: "datetime \<Rightarrow> bool" where
  "valid_time t = (0 \<le> hour t \<and> hour t < 24 \<and> 0 \<le> minute t \<and> minute t < 60 \<and>
                   0 \<le> second t \<and> second t < 60 \<and> 0 \<le> microsecond t \<and> microsecond t < 1000000)"

text \<open>\<open>timedelta(days, seconds, microseconds)\<close> normalises to
  \<open>0 \<le> seconds < 86400\<close> and \<open>0 \<le> microseconds < 1000000\<close>, carrying downwards (floor).\<close>

definition timedelta_new :: "int \<Rightarrow> int \<Rightarrow> int \<Rightarrow> timedelta" where
  "timedelta_new d s us =
     (let s1 = s + us div 1000000 in
      \<lparr>days = d + s1 div 86400, seconds = s1 mod 86400, microseconds = us mod 1000000\<rparr>)"

text \<open>\<open>datetime.__sub__\<close> on two naive datetimes.\<close>

definition datetime_sub :: "datetime \<Rightarrow> datetime \<Rightarrow> timedelta" where
  "datetime_sub a b =
     timedelta_new (toordinal a - toordinal b)
       ((second a + minute a * 60 + hour a * 3600) - (second b + minute b * 60 + hour b * 3600))
       (microsecond a - microsecond b)"

text \<open>Datetimes compare as the tuples of their fields.\<close>

definition dt_key :: "datetime \<Rightarrow> int \<times> int \<times> int \<times> int \<times> int \<times> int \<times> int" where
  "dt_key d = (year d, month d, day d, hour d, minute d, second d, microsecond d)"

text \<open>
  \<open>datetime.strptime(s, "%Y.%m.%d")\<close>. The library compiles the format to the regular
  expression \<open>(?P<Y>\d\d\d\d)\.(?P<m>1[0-2]|0[1-9]|[1-9])\.(?P<d>3[0-1]|[1-2]\d|0[1-9]|[1-9]| [1-9])\<close>,
  matches it at the start of the string, raises ValueError when there is no match or when
  the match does not reach the end of the string, and builds the date, which raises
  ValueError for a day the month does not have or for year 0. Each piece below returns the
  ways it can match, in the order the backtracking matcher tries them, each with the rest
  of the string. \<open>None\<close> stands for ValueError, the only exception it raises on a string.
\<close>

definition is_digit :: "char \<Rightarrow> bool" where
  "is_digit c = (c \<in> set ''0123456789'')"

definition digit_val :: "char \<Rightarrow> int" where
  "digit_val c = int (of_char c) - 48"

fun re_Y :: "string \<Rightarrow> (int \<times> string) list" where
  "re_Y (a # b # c # d # rest) =
     (if is_digit a \<and> is_digit b \<and> is_digit c \<and> is_digit d
      then [(1000 * digit_val a + 100 * digit_val b + 10 * digit_val c + digit_val d, rest)]
      else [])"
| "re_Y _ = []"

fun re_dot :: "string \<Rightarrow> string list" where
  "re_dot (c # rest) = (if c = CHR ''.'' then [rest] else [])"
| "re_dot [] = []"

text \<open>One alternative of two characters, the first in \<open>as\<close>, the second in \<open>bs\<close>.\<close>

fun re_two :: "string \<Rightarrow> string \<Rightarrow> string \<Rightarrow> (int \<times> string) list" where
  "re_two as bs (a # b # rest) =
     (if a \<in> set as \<and> b \<in> set bs
      then [((if a = CHR '' '' then 0 else 10 * digit_val a) + digit_val b, rest)] else [])"
| "re_two as bs _ = []"

fun re_one :: "string \<Rightarrow> string \<Rightarrow> (int \<times> string) list" where
  "re_one as (a # rest) = (if a \<in> set as then [(digit_val a, rest)] else [])"
| "re_one as [] = []"

definition re_m :: "string \<Rightarrow> (int \<times> string) list" where
  "re_m s = re_two ''1'' ''012'' s @ re_two ''0'' ''123456789'' s @ re_one ''123456789'' s"

definition re_d :: "string \<Rightarrow> (int \<times> string) list" where
  "re_d s = re_two ''3'' ''01'' s @ re_two ''12'' ''0123456789'' s @ re_two ''0'' ''123456789'' s
            @ re_one ''123456789'' s @ re_two '' '' ''123456789'' s"

definition re_matches :: "string \<Rightarrow> (int \<times> int \<times> int \<times> string) list" where
  "re_matches s =
     concat (map (\<lambda>(y, r1).
       concat (map (\<lambda>r2.
         concat (map (\<lambda>(m, r3).
           concat (map (\<lambda>r4.
             map (\<lambda>(d, r5). (y, m, d, r5)) (re_d r4))
           (re_dot r3)))
         (re_m r2)))
       (re_dot r1)))
     (re_Y s))"

definition strptime :: "string \<Rightarrow> datetime option" where
  "strptime s =
     (case re_matches s of
        [] \<Rightarrow> None
      | (y, m, d, rest) # _ \<Rightarrow>
          if rest \<noteq> [] then None
          else if valid_date y m d
          then Some \<lparr>year = y, month = m, day = d, hour = 0, minute = 0, second = 0, microsecond = 0\<rparr>
          else None)"

text \<open>\<open>index_name.rsplit("-", 1)[-1]\<close>: what follows the last hyphen, or the whole name.\<close>

definition rsplit_last :: "string \<Rightarrow> string" where
  "rsplit_last index_name = rev (takeWhile (\<lambda>c. c \<noteq> CHR ''-'') (rev index_name))"

subsection \<open>Classification of old indices\<close>

text \<open>
  The listing is the dict returned by \<open>indices.get_alias("*")\<close>, as the list of its items
  in iteration order. The loop of lines 54-63, with \<open>old_indices\<close> as accumulator.
\<close>

type_synonym listing = "(string \<times> json) list"

fun collect_old_backup_delete ::
  "listing \<Rightarrow> datetime \<Rightarrow> int \<Rightarrow> (string \<times> datetime) list \<Rightarrow> (string \<times> datetime) list" where
  "collect_old_backup_delete [] current_date redundancy_period_days old_indices = old_indices"
| "collect_old_backup_delete ((index_name, index_info) # rest) current_date redundancy_period_days old_indices =
     (case strptime (rsplit_last index_name) of
        None \<Rightarrow> collect_old_backup_delete rest current_date redundancy_period_days old_indices
      | Some creation_date \<Rightarrow>
          if days (datetime_sub current_date creation_date) > redundancy_period_days
          then collect_old_backup_delete rest current_date redundancy_period_days
                 (old_indices @ [(index_name, creation_date)])
          else collect_old_backup_delete rest current_date redundancy_period_days old_indices)"

text \<open>Lines 51-66: the loop from the empty list, then the stable sort by creation date.\<close>

definition old_indices_backup_delete :: "listing \<Rightarrow> datetime \<Rightarrow> int \<Rightarrow> (string \<times> datetime) list" where
  "old_indices_backup_delete indices current_date redundancy_period_days =
     sort_key (\<lambda>x. dt_key (snd x))
       (collect_old_backup_delete indices current_date redundancy_period_days [])"

text \<open>The same loop as written again in \<open>list_delete_old_indices\<close>, lines 157-166 and 154-169.\<close>

fun collect_old_delete ::
  "listing \<Rightarrow> datetime \<Rightarrow> int \<Rightarrow> (string \<times> datetime) list \<Rightarrow> (string \<times> datetime) list" where
  "collect_old_delete [] current_date days_arg old_indices = old_indices"
| "collect_old_delete ((index_name, index_info) # rest) current_date days_arg old_indices =
     (case strptime (rsplit_last index_name) of
        None \<Rightarrow> collect_old_delete rest current_date days_arg old_indices
      | Some creation_date \<Rightarrow>
          if days (datetime_sub current_date creation_date) > days_arg
          then collect_old_delete rest current_date days_arg (old_indices @ [(index_name, creation_date)])
          else collect_old_delete rest current_date days_arg old_indices)"

definition old_indices_delete :: "listing \<Rightarrow> datetime \<Rightarrow> int \<Rightarrow> (string \<times> datetime) list" where
  "old_indices_delete indices current_date days_arg =
     sort_key (\<lambda>x. dt_key (snd x)) (collect_old_delete indices current_date days_arg [])"

subsection \<open>The environment, the state and the trace\<close>

text \<open>
  The parameters of \<open>list_backup_delete_old_indices\<close> other than the connection ones
  (\<open>host\<close>, \<open>port\<close>, \<open>username\<close>, \<open>password\<close> only build the client, which is the
  environment here).
\<close>

record config =
  repository_name :: string
  redundancy_period_days :: int
  disk_usage_threshold :: int
  snapshot_retry_interval :: int
  snapshot_max_retries :: int

text \<open>
  What the script calls outside itself. Each operation reads and changes the world and
  either returns or raises; nothing is assumed about what it answers. \<open>env_fl\<close> is the
  rounding of a real number to a float, applied after each floating-point operation of
  \<open>check_disk_space\<close>. \<open>snapshot.create\<close> is always called with the body
  \<open>{"indices": index_name, "ignore_unavailable": True, "include_global_state": False}\<close>,
  of which the operation takes the index name. Building the client (lines 42-47, 145-150)
  sends nothing to the cluster and is not an event.
\<close>

record 'w env =
  env_get_alias :: "'w \<Rightarrow> (exn + listing) \<times> 'w"
  env_now :: "'w \<Rightarrow> datetime \<times> 'w"
  env_disk_usage :: "string \<Rightarrow> 'w \<Rightarrow> (exn + int \<times> int \<times> int) \<times> 'w"
  env_snapshot_create :: "string \<Rightarrow> string \<Rightarrow> string \<Rightarrow> 'w \<Rightarrow> (exn + json) \<times> 'w"
  env_snapshot_status :: "string \<Rightarrow> string \<Rightarrow> 'w \<Rightarrow> (exn + json) \<times> 'w"
  env_indices_delete :: "string \<Rightarrow> 'w \<Rightarrow> (exn + json) \<times> 'w"
  env_sleep :: "int \<Rightarrow> 'w \<Rightarrow> (exn + unit) \<times> 'w"
  env_fl :: "real \<Rightarrow> real"

text \<open>The lines the two functions print, one constructor for each \<open>print\<close> statement.\<close>

datatype msg =
    MsgOlderThan int
  | MsgIndex string
  | MsgDiskBefore int
  | MsgSnapshotCreated string string
  | MsgWaiting string
  | MsgTimedOut string
  | MsgDeletedAfterSnapshot string
  | MsgDiskAfter int string
  | MsgFailedSnapshot string exn
  | MsgErrorProcessing string exn
  | MsgDeleted string
  | MsgFailedDelete string exn
  | MsgErrorDeleting string exn
  | MsgConnectionError exn
  | MsgAuthorization exn
  | MsgRequestError exn
  | MsgErrorRetrieving exn

text \<open>A call with its arguments and what it answered, or a printed line.\<close>

datatype event =
    GetAlias "exn + listing"
  | Now datetime
  | DiskUsage string "exn + int \<times> int \<times> int"
  | SnapshotCreate string string string "exn + json"
  | SnapshotStatus string string "exn + json"
  | IndicesDelete string "exn + json"
  | Sleep int "exn + unit"
  | Print msg

record 'w state =
  world :: 'w
  trace :: "event list"

definition call :: "('w \<Rightarrow> 'r \<times> 'w) \<Rightarrow> ('r \<Rightarrow> event) \<Rightarrow> 'w state \<Rightarrow> 'r \<times> 'w state" where
  "call op ev s = (case op (world s) of (r, w) \<Rightarrow> (r, \<lparr>world = w, trace = trace s @ [ev r]\<rparr>))"

definition print_line :: "msg \<Rightarrow> 'w state \<Rightarrow> 'w state" where
  "print_line m s = \<lparr>world = world s, trace = trace s @ [Print m]\<rparr>"

text \<open>The loop \<open>for index_name, creation_date in old_indices: print(...)\<close> (lines 69-70, 172-173).\<close>

fun print_indices :: "(string \<times> datetime) list \<Rightarrow> 'w state \<Rightarrow> 'w state" where
  "print_indices [] s = s"
| "print_indices ((index_name, creation_date) # rest) s =
     print_indices rest (print_line (MsgIndex index_name) s)"

subsection \<open>\<open>check_disk_space\<close> (lines 24-27)\<close>

definition check_disk_space :: "'w env \<Rightarrow> string \<Rightarrow> 'w state \<Rightarrow> (exn + real) \<times> 'w state" where
  "check_disk_space env path s =
     (case call (env_disk_usage env path) (DiskUsage path) s of
        (Inl e, s1) \<Rightarrow> (Inl e, s1)
      | (Inr (total_b, used_b, free_b), s1) \<Rightarrow>
          if total_b = 0 then (Inl ZeroDivisionError, s1)
          else (Inr (env_fl env (env_fl env (real_of_int used_b / real_of_int total_b) * 100)), s1))"

subsection \<open>\<open>list_backup_delete_old_indices\<close> (lines 30-140)\<close>

text \<open>\<open>current_date.strftime('%Y%m%d%H%M%S')\<close> and the snapshot name of lines 81-83.\<close>

definition digit_char :: "int \<Rightarrow> char" where
  "digit_char n = char_of (48 + n mod 10)"

definition pad2 :: "int \<Rightarrow> string" where
  "pad2 n = [digit_char (n div 10), digit_char n]"

definition pad4 :: "int \<Rightarrow> string" where
  "pad4 n = [digit_char (n div 1000), digit_char (n div 100), digit_char (n div 10), digit_char n]"

definition strftime :: "datetime \<Rightarrow> string" where
  "strftime d = pad4 (year d) @ pad2 (month d) @ pad2 (day d) @ pad2 (hour d) @ pad2 (minute d) @ pad2 (second d)"

definition snapshot_name_of :: "string \<Rightarrow> datetime \<Rightarrow> string" where
  "snapshot_name_of index_name current_date = ''snapshot-'' @ index_name @ ''-'' @ strftime current_date"

text \<open>The message of the exception raised at lines 106-108; \<open>st\<close> is the state string.\<close>

definition failed_message :: "string \<Rightarrow> json \<Rightarrow> string" where
  "failed_message index_name st =
     ''Snapshot creation failed for index '' @ index_name @ '': '' @ (case st of JStr x \<Rightarrow> x | _ \<Rightarrow> [])"

text \<open>
  The \<open>while\<close> loop of lines 99-111, from the current value of \<open>retries\<close>. It returns the
  value of \<open>retries\<close> when the loop is left (by \<open>break\<close> or by its condition), or the
  exception raised inside it.
\<close>

function wait_loop ::
  "'w env \<Rightarrow> config \<Rightarrow> string \<Rightarrow> string \<Rightarrow> int \<Rightarrow> 'w state \<Rightarrow> (exn + int) \<times> 'w state" where
  "wait_loop env cfg index_name snapshot_name retries s =
     (if retries < snapshot_max_retries cfg then
        (case call (env_snapshot_status env (repository_name cfg) snapshot_name)
                (SnapshotStatus (repository_name cfg) snapshot_name) s of
           (Inl e, s1) \<Rightarrow> (Inl e, s1)
         | (Inr snapshot_status, s1) \<Rightarrow>
             (case snapshot_state snapshot_status of
                Inl e \<Rightarrow> (Inl e, s1)
              | Inr st \<Rightarrow>
                  if st = JStr ''SUCCESS'' then (Inr retries, s1)
                  else if st = JStr ''FAILED'' \<or> st = JStr ''PARTIAL''
                  then (Inl (Exception (failed_message index_name st)), s1)
                  else
                    (case call (env_sleep env (snapshot_retry_interval cfg))
                            (Sleep (snapshot_retry_interval cfg))
                            (print_line (MsgWaiting snapshot_name) s1) of
                       (Inl e, s2) \<Rightarrow> (Inl e, s2)
                     | (Inr u, s2) \<Rightarrow> wait_loop env cfg index_name snapshot_name (retries + 1) s2)))
      else (Inr retries, s))"
  by pat_completeness auto
termination
  by (relation "measure (\<lambda>(env, cfg, index_name, snapshot_name, retries, s).
                          nat (snapshot_max_retries cfg - retries))") auto

declare wait_loop.simps [simp del]

text \<open>How one iteration of a \<open>for\<close> loop ends: it goes on to the next item (by reaching
  the end of the body or by \<open>continue\<close>), the function returns, or an exception leaves it.\<close>

datatype ctl = Next | Return | Raise exn

text \<open>The body of the inner \<open>try\<close>, lines 85-126: \<open>Inl\<close> an exception raised in it.\<close>

definition backup_delete_try ::
  "'w env \<Rightarrow> config \<Rightarrow> string \<Rightarrow> string \<Rightarrow> 'w state \<Rightarrow> (exn + ctl) \<times> 'w state" where
  "backup_delete_try env cfg index_name snapshot_name s =
     (case call (env_snapshot_create env (repository_name cfg) snapshot_name index_name)
             (SnapshotCreate (repository_name cfg) snapshot_name index_name) s of
        (Inl e, s1) \<Rightarrow> (Inl e, s1)
      | (Inr response, s1) \<Rightarrow>
          (case wait_loop env cfg index_name snapshot_name 0
                  (print_line (MsgSnapshotCreated index_name snapshot_name) s1) of
             (Inl e, s2) \<Rightarrow> (Inl e, s2)
           | (Inr retries, s2) \<Rightarrow>
               if retries \<ge> snapshot_max_retries cfg
               then (Inr Next, print_line (MsgTimedOut index_name) s2)
               else
                 (case call (env_indices_delete env index_name) (IndicesDelete index_name) s2 of
                    (Inl e, s3) \<Rightarrow> (Inl e, s3)
                  | (Inr r, s3) \<Rightarrow>
                      (case check_disk_space env ''/'' (print_line (MsgDeletedAfterSnapshot index_name) s3) of
                         (Inl e, s4) \<Rightarrow> (Inl e, s4)
                       | (Inr used_percent, s4) \<Rightarrow>
                           if used_percent > real_of_int (disk_usage_threshold cfg)
                           then (Inr Return,
                                 print_line (MsgDiskAfter (disk_usage_threshold cfg) index_name) s4)
                           else (Inr Next, s4)))))"

text \<open>The two handlers of the inner \<open>try\<close>, lines 128-131, in their order.\<close>

definition backup_delete_handlers :: "string \<Rightarrow> exn \<Rightarrow> 'w state \<Rightarrow> ctl \<times> 'w state" where
  "backup_delete_handlers index_name e s =
     (if isinstance_RequestError e then (Next, print_line (MsgFailedSnapshot index_name e) s)
      else if isinstance_Exception e then (Next, print_line (MsgErrorProcessing index_name e) s)
      else (Raise e, s))"

text \<open>One iteration of the loop of line 80: lines 81-131.\<close>

definition backup_delete_index ::
  "'w env \<Rightarrow> config \<Rightarrow> datetime \<Rightarrow> string \<times> datetime \<Rightarrow> 'w state \<Rightarrow> ctl \<times> 'w state" where
  "backup_delete_index env cfg current_date item s =
     (case item of (index_name, creation_date) \<Rightarrow>
        (case backup_delete_try env cfg index_name (snapshot_name_of index_name current_date) s of
           (Inr c, s1) \<Rightarrow> (c, s1)
         | (Inl e, s1) \<Rightarrow> backup_delete_handlers index_name e s1))"

fun backup_delete_loop ::
  "'w env \<Rightarrow> config \<Rightarrow> datetime \<Rightarrow> (string \<times> datetime) list \<Rightarrow> 'w state \<Rightarrow> ctl \<times> 'w state" where
  "backup_delete_loop env cfg current_date [] s = (Next, s)"
| "backup_delete_loop env cfg current_date (item # rest) s =
     (case backup_delete_index env cfg current_date item s of
        (Next, s1) \<Rightarrow> backup_delete_loop env cfg current_date rest s1
      | (c, s1) \<Rightarrow> (c, s1))"

text \<open>The body of the outer \<open>try\<close>, lines 42-131.\<close>

definition backup_delete_body :: "'w env \<Rightarrow> config \<Rightarrow> 'w state \<Rightarrow> (exn + unit) \<times> 'w state" where
  "backup_delete_body env cfg s =
     (case call (env_get_alias env) GetAlias s of
        (Inl e, s1) \<Rightarrow> (Inl e, s1)
      | (Inr indices, s1) \<Rightarrow>
          (case call (env_now env) Now s1 of
             (current_date, s2) \<Rightarrow>
               (let old_indices = old_indices_backup_delete indices current_date (redundancy_period_days cfg)
                in case check_disk_space env ''/''
                          (print_indices old_indices
                             (print_line (MsgOlderThan (redundancy_period_days cfg)) s2)) of
                     (Inl e, s3) \<Rightarrow> (Inl e, s3)
                   | (Inr used_percent, s3) \<Rightarrow>
                       if used_percent > real_of_int (disk_usage_threshold cfg)
                       then (Inr (), print_line (MsgDiskBefore (disk_usage_threshold cfg)) s3)
                       else
                         (case backup_delete_loop env cfg current_date old_indices s3 of
                            (Raise e, s4) \<Rightarrow> (Inl e, s4)
                          | (c, s4) \<Rightarrow> (Inr (), s4)))))"

text \<open>The handlers of the outer \<open>try\<close>, lines 133-140 and 185-192, in their order.\<close>

definition outer_handlers :: "exn \<Rightarrow> 'w state \<Rightarrow> (exn + unit) \<times> 'w state" where
  "outer_handlers e s =
     (if isinstance_ConnectionError e then (Inr (), print_line (MsgConnectionError e) s)
      else if isinstance_AuthorizationException e then (Inr (), print_line (MsgAuthorization e) s)
      else if isinstance_RequestError e then (Inr (), print_line (MsgRequestError e) s)
      else if isinstance_Exception e then (Inr (), print_line (MsgErrorRetrieving e) s)
      else (Inl e, s))"

text \<open>The function: \<open>Inr ()\<close> when it returns, \<open>Inl e\<close> when \<open>e\<close> reaches its caller.\<close>

definition list_backup_delete_old_indices ::
  "'w env \<Rightarrow> config \<Rightarrow> 'w state \<Rightarrow> (exn + unit) \<times> 'w state" where
  "list_backup_delete_old_indices env cfg s =
     (case backup_delete_body env cfg s of
        (Inr u, s1) \<Rightarrow> (Inr u, s1)
      | (Inl e, s1) \<Rightarrow> outer_handlers e s1)"

subsection \<open>\<open>list_delete_old_indices\<close> (lines 143-192)\<close>

text \<open>The two handlers of lines 180-183, in their order.\<close>

definition delete_handlers :: "string \<Rightarrow> exn \<Rightarrow> 'w state \<Rightarrow> ctl \<times> 'w state" where
  "delete_handlers index_name e s =
     (if isinstance_RequestError e then (Next, print_line (MsgFailedDelete index_name e) s)
      else if isinstance_Exception e then (Next, print_line (MsgErrorDeleting index_name e) s)
      else (Raise e, s))"

text \<open>One iteration of the loop of line 176: lines 177-183.\<close>

definition delete_index :: "'w env \<Rightarrow> string \<times> datetime \<Rightarrow> 'w state \<Rightarrow> ctl \<times> 'w state" where
  "delete_index env item s =
     (case item of (index_name, creation_date) \<Rightarrow>
        (case call (env_indices_delete env index_name) (IndicesDelete index_name) s of
           (Inr r, s1) \<Rightarrow> (Next, print_line (MsgDeleted index_name) s1)
         | (Inl e, s1) \<Rightarrow> delete_handlers index_name e s1))"

fun delete_loop :: "'w env \<Rightarrow> (string \<times> datetime) list \<Rightarrow> 'w state \<Rightarrow> ctl \<times> 'w state" where
  "delete_loop env [] s = (Next, s)"
| "delete_loop env (item # rest) s =
     (case delete_index env item s of
        (Next, s1) \<Rightarrow> delete_loop env rest s1
      | (c, s1) \<Rightarrow> (c, s1))"

definition delete_body :: "'w env \<Rightarrow> int \<Rightarrow> 'w state \<Rightarrow> (exn + unit) \<times> 'w state" where
  "delete_body env days_arg s =
     (case call (env_get_alias env) GetAlias s of
        (Inl e, s1) \<Rightarrow> (Inl e, s1)
      | (Inr indices, s1) \<Rightarrow>
          (case call (env_now env) Now s1 of
             (current_date, s2) \<Rightarrow>
               (let old_indices = old_indices_delete indices current_date days_arg
                in case delete_loop env old_indices
                          (print_indices old_indices (print_line (MsgOlderThan days_arg) s2)) of
                     (Raise e, s3) \<Rightarrow> (Inl e, s3)
                   | (c, s3) \<Rightarrow> (Inr (), s3))))"

definition list_delete_old_indices :: "'w env \<Rightarrow> int \<Rightarrow> 'w state \<Rightarrow> (exn + unit) \<times> 'w state" where
  "list_delete_old_indices env days_arg s =
     (case delete_body env days_arg s of
        (Inr u, s1) \<Rightarrow> (Inr u, s1)
      | (Inl e, s1) \<Rightarrow> outer_handlers e s1)"

subsection \<open>Reading a trace\<close>

text \<open>The index names of the \<open>snapshot.create\<close> calls, of the \<open>indices.delete\<close> calls, and
  the answers of the \<open>snapshot.status\<close> calls, each in the order of the calls.\<close>

fun created_names :: "event list \<Rightarrow> string list" where
  "created_names [] = []"
| "created_names (SnapshotCreate repo sn index_name r # evs) = index_name # created_names evs"
| "created_names (ev # evs) = created_names evs"

fun deleted_names :: "event list \<Rightarrow> string list" where
  "deleted_names [] = []"
| "deleted_names (IndicesDelete index_name r # evs) = index_name # deleted_names evs"
| "deleted_names (ev # evs) = deleted_names evs"

fun status_polls :: "event list \<Rightarrow> (exn + json) list" where
  "status_polls [] = []"
| "status_polls (SnapshotStatus repo sn r # evs) = r # status_polls evs"
| "status_polls (ev # evs) = status_polls evs"

text \<open>A status answer whose state is FAILED or PARTIAL.\<close>

definition reports_failure :: "json \<Rightarrow> bool" where
  "reports_failure snapshot_status =
     (snapshot_state snapshot_status = Inr (JStr ''FAILED'') \<or>
      snapshot_state snapshot_status = Inr (JStr ''PARTIAL''))"

text \<open>
  The events that are a failure of the index being processed: the snapshot request or the
  delete request raised an \<open>Exception\<close>, a poll reported FAILED or PARTIAL, or the
  time-out line was printed.
\<close>

fun per_index_failure :: "event \<Rightarrow> bool" where
  "per_index_failure (SnapshotCreate repo sn index_name (Inl e)) = isinstance_Exception e"
| "per_index_failure (SnapshotStatus repo sn (Inr snapshot_status)) = reports_failure snapshot_status"
| "per_index_failure (IndicesDelete index_name (Inl e)) = isinstance_Exception e"
| "per_index_failure (Print (MsgTimedOut index_name)) = True"
| "per_index_failure ev = False"

text \<open>The events of the polling loop for one snapshot.\<close>

fun wait_event :: "config \<Rightarrow> string \<Rightarrow> event \<Rightarrow> bool" where
  "wait_event cfg snapshot_name (SnapshotStatus repo sn r) =
     (repo = repository_name cfg \<and> sn = snapshot_name)"
| "wait_event cfg snapshot_name (Sleep secs r) = (secs = snapshot_retry_interval cfg)"
| "wait_event cfg snapshot_name (Print m) = (m = MsgWaiting snapshot_name)"
| "wait_event cfg snapshot_name ev = False"

text \<open>In the events \<open>evs\<close> of a polling loop that ended with \<open>res\<close>, a poll that reports
  FAILED or PARTIAL is the last event, and the loop raised the exception of lines 106-108.\<close>

definition poll_stops :: "config \<Rightarrow> string \<Rightarrow> string \<Rightarrow> event list \<Rightarrow> exn + int \<Rightarrow> bool" where
  "poll_stops cfg index_name snapshot_name evs res =
     (\<forall>pre snapshot_status post.
        evs = pre @ SnapshotStatus (repository_name cfg) snapshot_name (Inr snapshot_status) # post \<longrightarrow>
        reports_failure snapshot_status \<longrightarrow>
        post = [] \<and>
        (\<exists>st. snapshot_state snapshot_status = Inr st \<and>
              res = Inl (Exception (failed_message index_name st))))"

text \<open>What the events \<open>evs\<close> of one iteration for the index \<open>n\<close>, ended by \<open>c\<close>, satisfy;
  the same for the loop over the indices \<open>names\<close>; and events with no snapshot request,
  no delete request, no poll and no time-out line.\<close>

definition iteration_ok :: "string \<Rightarrow> event list \<Rightarrow> ctl \<Rightarrow> bool" where
  "iteration_ok n evs c =
     (created_names evs = [n] \<and> set (deleted_names evs) \<subseteq> {n} \<and>
      (\<forall>m. Print (MsgTimedOut m) \<in> set evs \<longrightarrow> m = n \<and> deleted_names evs = []) \<and>
      ((\<exists>ev\<in>set evs. per_index_failure ev) \<longrightarrow> c = Next) \<and>
      (\<forall>e. c = Raise e \<longrightarrow> \<not> isinstance_Exception e))"

definition loop_ok :: "string list \<Rightarrow> event list \<Rightarrow> ctl \<Rightarrow> bool" where
  "loop_ok names evs c =
     (prefix (created_names evs) names \<and> (c = Next \<longrightarrow> created_names evs = names) \<and>
      set (deleted_names evs) \<subseteq> set names \<and>
      (\<forall>m. Print (MsgTimedOut m) \<in> set evs \<longrightarrow> m \<in> set names) \<and>
      (distinct names \<longrightarrow> (\<forall>m. Print (MsgTimedOut m) \<in> set evs \<longrightarrow> m \<notin> set (deleted_names evs))) \<and>
      (\<forall>e. c = Raise e \<longrightarrow> \<not> isinstance_Exception e))"

definition quiet :: "event list \<Rightarrow> bool" where
  "quiet evs = (created_names evs = [] \<and> deleted_names evs = [] \<and> status_polls evs = [] \<and>
                (\<forall>m. Print (MsgTimedOut m) \<notin> set evs) \<and>
                (\<forall>repo sn n r. SnapshotCreate repo sn n r \<notin> set evs))"

text \<open>Events with no poll and no delete request, in which every acknowledged snapshot
  request is followed by the time-out line of its index.\<close>

definition all_timed_out :: "event list \<Rightarrow> bool" where
  "all_timed_out evs =
     (status_polls evs = [] \<and> deleted_names evs = [] \<and>
      (\<forall>repo sn n a. SnapshotCreate repo sn n (Inr a) \<in> set evs \<longrightarrow>
         Print (MsgTimedOut n) \<in> set evs))"

text \<open>The same for one iteration and for the loop of the delete mode.\<close>

definition delete_iteration_ok :: "string \<Rightarrow> event list \<Rightarrow> ctl \<Rightarrow> bool" where
  "delete_iteration_ok n evs c =
     (deleted_names evs = [n] \<and> created_names evs = [] \<and>
      ((\<exists>ev\<in>set evs. per_index_failure ev) \<longrightarrow> c = Next) \<and>
      (\<forall>e. c = Raise e \<longrightarrow> \<not> isinstance_Exception e))"

definition delete_loop_ok :: "string list \<Rightarrow> event list \<Rightarrow> ctl \<Rightarrow> bool" where
  "delete_loop_ok names evs c =
     (prefix (deleted_names evs) names \<and> (c = Next \<longrightarrow> deleted_names evs = names) \<and>
      created_names evs = [] \<and> c \<noteq> Return \<and>
      (\<forall>e. c = Raise e \<longrightarrow> \<not> isinstance_Exception e))"


text \<open>
  The date token as the specification words it, to compare with what \<open>strptime\<close> takes:
  a four-digit year, a two-digit month and a two-digit day, joined by dots, that name a
  day of the calendar.
\<close>

fun spec_date_token :: "string \<Rightarrow> bool" where
  "spec_date_token [y1, y2, y3, y4, p, m1, m2, q, d1, d2] =
     (is_digit y1 \<and> is_digit y2 \<and> is_digit y3 \<and> is_digit y4 \<and> p = CHR ''.'' \<and>
      is_digit m1 \<and> is_digit m2 \<and> q = CHR ''.'' \<and> is_digit d1 \<and> is_digit d2 \<and>
      valid_date (1000 * digit_val y1 + 100 * digit_val y2 + 10 * digit_val y3 + digit_val y4)
                 (10 * digit_val m1 + digit_val m2) (10 * digit_val d1 + digit_val d2))"
| "spec_date_token tok = False"

text \<open>The lines printed when a function gives up before the end of its loop: the two disk
  warnings and the lines of the outer handlers.\<close>

fun stopped_early :: "event \<Rightarrow> bool" where
  "stopped_early (Print (MsgDiskBefore thr)) = True"
| "stopped_early (Print (MsgDiskAfter thr index_name)) = True"
| "stopped_early (Print (MsgConnectionError e)) = True"
| "stopped_early (Print (MsgAuthorization e)) = True"
| "stopped_early (Print (MsgRequestError e)) = True"
| "stopped_early (Print (MsgErrorRetrieving e)) = True"
| "stopped_early ev = False"

text \<open>A status poll of the snapshot \<open>sn\<close> of the repository \<open>repo\<close> that answered with
  state SUCCESS.\<close>

fun succeeded_poll :: "string \<Rightarrow> string \<Rightarrow> event \<Rightarrow> bool" where
  "succeeded_poll repo sn (SnapshotStatus repo' sn' (Inr snapshot_status)) =
     (repo' = repo \<and> sn' = sn \<and> snapshot_state snapshot_status = Inr (JStr ''SUCCESS''))"
| "succeeded_poll repo sn ev = False"

text \<open>In the events \<open>evs\<close> of the backup loop run at \<open>now\<close>: every snapshot request is for the
  snapshot named after its index, and every index deleted has a poll of its snapshot that
  answered SUCCESS.\<close>

definition archive_ok :: "config \<Rightarrow> datetime \<Rightarrow> event list \<Rightarrow> bool" where
  "archive_ok cfg now evs =
     ((\<forall>repo sn m r. SnapshotCreate repo sn m r \<in> set evs \<longrightarrow>
          repo = repository_name cfg \<and> sn = snapshot_name_of m now) \<and>
      (\<forall>m\<in>set (deleted_names evs).
          \<exists>ev\<in>set evs. succeeded_poll (repository_name cfg) (snapshot_name_of m now) ev))"

text \<open>What one item of the listing contributes to the list of old indices.\<close>

definition stale_item :: "datetime \<Rightarrow> int \<Rightarrow> string \<times> json \<Rightarrow> (string \<times> datetime) option" where
  "stale_item current_date threshold item =
     (case strptime (rsplit_last (fst item)) of
        None \<Rightarrow> None
      | Some creation_date \<Rightarrow>
          if days (datetime_sub current_date creation_date) > threshold
          then Some (fst item, creation_date) else None)"

subsection \<open>Scenarios\<close>

text \<open>
  A small cluster to run the functions on: the world counts the status polls made so far.
  The listing (or the error of listing), the clock, the answer to each snapshot request and
  delete request by index name, the answer to the k-th status poll and the disk sample are
  given; sleeping raises ValueError for a negative length as \<open>time.sleep\<close> does; floats
  are not rounded.
\<close>

definition scenario ::
  "exn + listing \<Rightarrow> datetime \<Rightarrow> (string \<Rightarrow> exn + json) \<Rightarrow> (nat \<Rightarrow> exn + json) \<Rightarrow>
   (string \<Rightarrow> exn + json) \<Rightarrow> exn + int \<times> int \<times> int \<Rightarrow> nat env" where
  "scenario indices now create status delete disk =
     \<lparr>env_get_alias = (\<lambda>w. (indices, w)),
      env_now = (\<lambda>w. (now, w)),
      env_disk_usage = (\<lambda>path w. (disk, w)),
      env_snapshot_create = (\<lambda>repo sn index_name w. (create index_name, w)),
      env_snapshot_status = (\<lambda>repo sn w. (status w, Suc w)),
      env_indices_delete = (\<lambda>index_name w. (delete index_name, w)),
      env_sleep = (\<lambda>secs w. (if secs < 0 then Inl ValueError else Inr (), w)),
      env_fl = (\<lambda>x. x)\<rparr>"

definition ack :: json where
  "ack = JDict [(''acknowledged'', JNum 1)]"

definition status_with :: "string \<Rightarrow> json" where
  "status_with st = JDict [(''snapshots'', JList [JDict [(''state'', JStr st)]])]"

definition midnight :: "int \<Rightarrow> int \<Rightarrow> int \<Rightarrow> datetime" where
  "midnight y m d = \<lparr>year = y, month = m, day = d, hour = 0, minute = 0, second = 0, microsecond = 0\<rparr>"

definition logs_listing :: listing where
  "logs_listing = [(''logs-2023.06.01'', JNull), (''metrics-bad-name'', JNull), (''logs-2023.01.01'', JNull)]"

definition boundary_listing :: listing where
  "boundary_listing = [(''logs-2023.10.03'', JNull), (''logs-2023.10.02'', JNull)]"

definition settings :: "int \<Rightarrow> config" where
  "settings max_retries =
     \<lparr>repository_name = ''repo'', redundancy_period_days = 90, disk_usage_threshold = 90,
      snapshot_retry_interval = 5, snapshot_max_retries = max_retries\<rparr>"

definition start :: "nat state" where
  "start = \<lparr>world = 0, trace = []\<rparr>"

text \<open>The snapshots never leave IN_PROGRESS; the disk is at 50 percent.\<close>

definition stuck_cluster :: "nat env" where
  "stuck_cluster =
     scenario (Inr logs_listing) (midnight 2024 1 1) (\<lambda>n. Inr ack)
       (\<lambda>k. Inr (status_with ''IN_PROGRESS'')) (\<lambda>n. Inr ack) (Inr (100, 50, 50))"

text \<open>Every snapshot is reported SUCCESS at the first poll; the disk is at 50 percent.\<close>

definition healthy_cluster :: "nat env" where
  "healthy_cluster =
     scenario (Inr logs_listing) (midnight 2024 1 1) (\<lambda>n. Inr ack)
       (\<lambda>k. Inr (status_with ''SUCCESS'')) (\<lambda>n. Inr ack) (Inr (100, 50, 50))"

text \<open>Every snapshot is reported PARTIAL at the first poll.\<close>

definition partial_cluster :: "nat env" where
  "partial_cluster =
     scenario (Inr logs_listing) (midnight 2024 1 1) (\<lambda>n. Inr ack)
       (\<lambda>k. Inr (status_with ''PARTIAL'')) (\<lambda>n. Inr ack) (Inr (100, 50, 50))"

text \<open>The cluster rejects every snapshot request and every delete request.\<close>

definition rejecting_cluster :: "nat env" where
  "rejecting_cluster =
     scenario (Inr logs_listing) (midnight 2024 1 1) (\<lambda>n. Inl RequestError)
       (\<lambda>k. Inr (status_with ''SUCCESS'')) (\<lambda>n. Inl RequestError) (Inr (100, 50, 50))"



text \<open>A cluster whose one index is named with a month and a day of one digit.\<close>

definition unpadded_listing :: listing where
  "unpadded_listing = [(''release-2023.1.5'', JNull)]"

definition unpadded_cluster :: "nat env" where
  "unpadded_cluster =
     scenario (Inr unpadded_listing) (midnight 2024 1 1) (\<lambda>n. Inr ack)
       (\<lambda>k. Inr (status_with ''SUCCESS'')) (\<lambda>n. Inr ack) (Inr (100, 50, 50))"

text \<open>The disk is at 96 percent, over the threshold of 90.\<close>

definition full_disk_cluster :: "nat env" where
  "full_disk_cluster =
     scenario (Inr logs_listing) (midnight 2024 1 1) (\<lambda>n. Inr ack)
       (\<lambda>k. Inr (status_with ''SUCCESS'')) (\<lambda>n. Inr ack) (Inr (100, 96, 4))"

section \<open>Classification\<close>

lemma collect_old_backup_delete_eq:
  "collect_old_backup_delete xs now thr acc = acc @ List.map_filter (stale_item now thr) xs"
  by (induction xs now thr acc rule: collect_old_backup_delete.induct)
     (auto simp: stale_item_def split: option.splits)

lemma collect_old_delete_eq:
  "collect_old_delete xs now thr acc = acc @ List.map_filter (stale_item now thr) xs"
  by (induction xs now thr acc rule: collect_old_delete.induct)
     (auto simp: stale_item_def split: option.splits)

lemma set_map_filter_stale:
  "(n, d) \<in> set (List.map_filter (stale_item now thr) xs) \<longleftrightarrow>
     ((\<exists>i. (n, i) \<in> set xs) \<and> strptime (rsplit_last n) = Some d \<and> days (datetime_sub now d) > thr)"
  by (induction xs) (auto simp: stale_item_def split: option.splits if_splits)

lemma set_old_indices_backup_delete:
  "(n, d) \<in> set (old_indices_backup_delete xs now thr) \<longleftrightarrow>
     ((\<exists>i. (n, i) \<in> set xs) \<and> strptime (rsplit_last n) = Some d \<and> days (datetime_sub now d) > thr)"
  by (simp add: old_indices_backup_delete_def collect_old_backup_delete_eq set_map_filter_stale)

lemma set_old_indices_delete:
  "(n, d) \<in> set (old_indices_delete xs now thr) \<longleftrightarrow>
     ((\<exists>i. (n, i) \<in> set xs) \<and> strptime (rsplit_last n) = Some d \<and> days (datetime_sub now d) > thr)"
  by (simp add: old_indices_delete_def collect_old_delete_eq set_map_filter_stale)

lemma strptime_midnight:
  "strptime tok = Some d \<Longrightarrow> hour d = 0 \<and> minute d = 0 \<and> second d = 0 \<and> microsecond d = 0"
  by (auto simp: strptime_def split: list.splits if_splits)

text \<open>Against a midnight, the \<open>days\<close> of the difference is the difference of the calendar
  days, whatever the time of day of \<open>now\<close>.\<close>

lemma days_datetime_sub:
  assumes "valid_time now" "hour d = 0" "minute d = 0" "second d = 0" "microsecond d = 0"
  shows "days (datetime_sub now d) = toordinal now - toordinal d"
proof -
  let ?secs = "second now + minute now * 60 + hour now * 3600"
  from assms(1) have us: "microsecond now div 1000000 = 0" and secs: "0 \<le> ?secs" "?secs < 86400"
    by (auto simp: valid_time_def)
  from secs have "?secs div 86400 = 0" by simp
  with us show ?thesis using assms(2-)
    by (simp add: datetime_sub_def timedelta_new_def Let_def)
qed

text \<open>
  C9. The classification written twice is the same function: for the same listing, the
  same current date and the same number of days, \<open>list_backup_delete_old_indices\<close> and
  \<open>list_delete_old_indices\<close> compute the same ordered list of old indices.
\<close>

theorem classification_same_in_both_modes:
  "old_indices_backup_delete indices current_date threshold
     = old_indices_delete indices current_date threshold"
  by (simp add: old_indices_backup_delete_def old_indices_delete_def
        collect_old_backup_delete_eq collect_old_delete_eq)

text \<open>
  C2. An index of the listing whose date token parses is in the list of old indices, in
  either mode, exactly when \<open>(current_date - creation_date).days\<close> is strictly greater
  than the threshold. That number is the difference of the calendar days; so an index
  created exactly threshold days before the current date is not old, and one created
  threshold + 1 days before is.
\<close>

theorem stale_iff_older_than_threshold:
  assumes "(index_name, index_info) \<in> set indices"
    and "strptime (rsplit_last index_name) = Some creation_date"
    and "valid_time current_date"
  shows "(((index_name, creation_date) \<in> set (old_indices_backup_delete indices current_date threshold))
            = (days (datetime_sub current_date creation_date) > threshold))
       \<and> (((index_name, creation_date) \<in> set (old_indices_delete indices current_date threshold))
            = (days (datetime_sub current_date creation_date) > threshold))
       \<and> days (datetime_sub current_date creation_date) = toordinal current_date - toordinal creation_date
       \<and> (toordinal current_date - toordinal creation_date = threshold \<longrightarrow>
            (index_name, creation_date) \<notin> set (old_indices_backup_delete indices current_date threshold)
          \<and> (index_name, creation_date) \<notin> set (old_indices_delete indices current_date threshold))
       \<and> (toordinal current_date - toordinal creation_date = threshold + 1 \<longrightarrow>
            (index_name, creation_date) \<in> set (old_indices_backup_delete indices current_date threshold)
          \<and> (index_name, creation_date) \<in> set (old_indices_delete indices current_date threshold))"
proof -
  have d: "days (datetime_sub current_date creation_date) = toordinal current_date - toordinal creation_date"
    using days_datetime_sub [OF assms(3)] strptime_midnight [OF assms(2)] by simp
  have m: "\<exists>i. (index_name, i) \<in> set indices" using assms(1) by blast
  show ?thesis
    unfolding set_old_indices_backup_delete set_old_indices_delete
    using d m assms(2) by simp
qed

text \<open>At 2024-01-01 10:30 with threshold 90: the index of 2023-10-03 is 90 days old and is
  kept, the index of 2023-10-02 is 91 days old and is in the list.\<close>

theorem stale_iff_older_than_threshold_witness:
  "(''logs-2023.10.03'', JNull) \<in> set boundary_listing
   \<and> (''logs-2023.10.02'', JNull) \<in> set boundary_listing
   \<and> strptime (rsplit_last ''logs-2023.10.03'') = Some (midnight 2023 10 3)
   \<and> strptime (rsplit_last ''logs-2023.10.02'') = Some (midnight 2023 10 2)
   \<and> valid_time ((midnight 2024 1 1)\<lparr>hour := 10, minute := 30\<rparr>)
   \<and> toordinal ((midnight 2024 1 1)\<lparr>hour := 10, minute := 30\<rparr>) - toordinal (midnight 2023 10 3) = 90
   \<and> toordinal ((midnight 2024 1 1)\<lparr>hour := 10, minute := 30\<rparr>) - toordinal (midnight 2023 10 2) = 90 + 1
   \<and> (''logs-2023.10.03'', midnight 2023 10 3)
        \<notin> set (old_indices_backup_delete boundary_listing ((midnight 2024 1 1)\<lparr>hour := 10, minute := 30\<rparr>) 90)
   \<and> (''logs-2023.10.03'', midnight 2023 10 3)
        \<notin> set (old_indices_delete boundary_listing ((midnight 2024 1 1)\<lparr>hour := 10, minute := 30\<rparr>) 90)
   \<and> (''logs-2023.10.02'', midnight 2023 10 2)
        \<in> set (old_indices_backup_delete boundary_listing ((midnight 2024 1 1)\<lparr>hour := 10, minute := 30\<rparr>) 90)
   \<and> (''logs-2023.10.02'', midnight 2023 10 2)
        \<in> set (old_indices_delete boundary_listing ((midnight 2024 1 1)\<lparr>hour := 10, minute := 30\<rparr>) 90)"
proof -
  let ?now = "(midnight 2024 1 1)\<lparr>hour := 10, minute := 30\<rparr>"
  have a3: "(''logs-2023.10.03'', JNull) \<in> set boundary_listing"
    and a2: "(''logs-2023.10.02'', JNull) \<in> set boundary_listing"
    by (simp_all add: boundary_listing_def)
  have b3: "strptime (rsplit_last ''logs-2023.10.03'') = Some (midnight 2023 10 3)"
    by code_simp
  have b2: "strptime (rsplit_last ''logs-2023.10.02'') = Some (midnight 2023 10 2)"
    by code_simp
  have c: "valid_time ?now"
    by (simp add: valid_time_def midnight_def)
  have e3: "toordinal ?now - toordinal (midnight 2023 10 3) = 90"
    by code_simp
  have e2: "toordinal ?now - toordinal (midnight 2023 10 2) = 90 + 1"
    by code_simp
  show ?thesis
    using stale_iff_older_than_threshold [OF a3 b3 c, of 90]
          stale_iff_older_than_threshold [OF a2 b2 c, of 90] a3 a2 b3 b2 c e3 e2
    by simp
qed

section \<open>The polling loop and one iteration\<close>

lemma call_eq:
  "call op ev s = (r, s') \<longleftrightarrow> (\<exists>w. op (world s) = (r, w) \<and> s' = \<lparr>world = w, trace = trace s @ [ev r]\<rparr>)"
  by (auto simp: call_def split: prod.splits)

lemma call_trace: "call op ev s = (r, s') \<Longrightarrow> trace s' = trace s @ [ev r]"
  by (auto simp: call_eq)

lemma trace_print_line [simp]: "trace (print_line m s) = trace s @ [Print m]"
  by (simp add: print_line_def)

lemma world_print_line [simp]: "world (print_line m s) = world s"
  by (simp add: print_line_def)

lemma created_names_append [simp]: "created_names (xs @ ys) = created_names xs @ created_names ys"
  by (induction xs rule: created_names.induct) auto

lemma deleted_names_append [simp]: "deleted_names (xs @ ys) = deleted_names xs @ deleted_names ys"
  by (induction xs rule: deleted_names.induct) auto

lemma status_polls_append [simp]: "status_polls (xs @ ys) = status_polls xs @ status_polls ys"
  by (induction xs rule: status_polls.induct) auto

lemma wait_events_quiet:
  "\<forall>ev\<in>set evs. wait_event cfg sn ev \<Longrightarrow> created_names evs = [] \<and> deleted_names evs = []"
proof (induction evs)
  case Nil
  show ?case by simp
next
  case (Cons ev evs)
  then show ?case by (cases ev) auto
qed

lemma wait_loop_exit:
  "\<not> retries < snapshot_max_retries cfg \<Longrightarrow> wait_loop env cfg n sn retries s = (Inr retries, s)"
  by (subst wait_loop.simps) simp

lemma wait_loop_raise:
  "retries < snapshot_max_retries cfg \<Longrightarrow>
   call (env_snapshot_status env (repository_name cfg) sn) (SnapshotStatus (repository_name cfg) sn) s = (Inl e, s1) \<Longrightarrow>
   wait_loop env cfg n sn retries s = (Inl e, s1)"
  by (subst wait_loop.simps) simp

lemma wait_loop_malformed:
  "retries < snapshot_max_retries cfg \<Longrightarrow>
   call (env_snapshot_status env (repository_name cfg) sn) (SnapshotStatus (repository_name cfg) sn) s = (Inr resp, s1) \<Longrightarrow>
   snapshot_state resp = Inl e \<Longrightarrow>
   wait_loop env cfg n sn retries s = (Inl e, s1)"
  by (subst wait_loop.simps) simp

lemma wait_loop_success:
  "retries < snapshot_max_retries cfg \<Longrightarrow>
   call (env_snapshot_status env (repository_name cfg) sn) (SnapshotStatus (repository_name cfg) sn) s = (Inr resp, s1) \<Longrightarrow>
   snapshot_state resp = Inr (JStr ''SUCCESS'') \<Longrightarrow>
   wait_loop env cfg n sn retries s = (Inr retries, s1)"
  by (subst wait_loop.simps) simp

lemma wait_loop_failed:
  "retries < snapshot_max_retries cfg \<Longrightarrow>
   call (env_snapshot_status env (repository_name cfg) sn) (SnapshotStatus (repository_name cfg) sn) s = (Inr resp, s1) \<Longrightarrow>
   snapshot_state resp = Inr st \<Longrightarrow> st = JStr ''FAILED'' \<or> st = JStr ''PARTIAL'' \<Longrightarrow>
   wait_loop env cfg n sn retries s = (Inl (Exception (failed_message n st)), s1)"
  by (subst wait_loop.simps) auto

lemma wait_loop_sleep_raise:
  "retries < snapshot_max_retries cfg \<Longrightarrow>
   call (env_snapshot_status env (repository_name cfg) sn) (SnapshotStatus (repository_name cfg) sn) s = (Inr resp, s1) \<Longrightarrow>
   snapshot_state resp = Inr st \<Longrightarrow> st \<noteq> JStr ''SUCCESS'' \<Longrightarrow> st \<noteq> JStr ''FAILED'' \<Longrightarrow> st \<noteq> JStr ''PARTIAL'' \<Longrightarrow>
   call (env_sleep env (snapshot_retry_interval cfg)) (Sleep (snapshot_retry_interval cfg))
        (print_line (MsgWaiting sn) s1) = (Inl e, s2) \<Longrightarrow>
   wait_loop env cfg n sn retries s = (Inl e, s2)"
  by (subst wait_loop.simps) simp

lemma wait_loop_again:
  "retries < snapshot_max_retries cfg \<Longrightarrow>
   call (env_snapshot_status env (repository_name cfg) sn) (SnapshotStatus (repository_name cfg) sn) s = (Inr resp, s1) \<Longrightarrow>
   snapshot_state resp = Inr st \<Longrightarrow> st \<noteq> JStr ''SUCCESS'' \<Longrightarrow> st \<noteq> JStr ''FAILED'' \<Longrightarrow> st \<noteq> JStr ''PARTIAL'' \<Longrightarrow>
   call (env_sleep env (snapshot_retry_interval cfg)) (Sleep (snapshot_retry_interval cfg))
        (print_line (MsgWaiting sn) s1) = (Inr u, s2) \<Longrightarrow>
   wait_loop env cfg n sn retries s = wait_loop env cfg n sn (retries + 1) s2"
  by (subst wait_loop.simps) simp

lemma wait_loop_events:
  "wait_loop env cfg n sn retries s = (res, s') \<Longrightarrow>
   \<exists>evs. trace s' = trace s @ evs \<and> (\<forall>ev\<in>set evs. wait_event cfg sn ev) \<and> poll_stops cfg n sn evs res"
proof (induction env cfg n sn retries s arbitrary: res s' rule: wait_loop.induct)
  case (1 env cfg n sn retries s)
  let ?repo = "repository_name cfg"
  show ?case
  proof (cases "retries < snapshot_max_retries cfg")
    case False
    with "1.prems" have "s' = s" by (simp add: wait_loop_exit)
    then show ?thesis by (simp add: poll_stops_def)
  next
    case lt: True
    obtain r0 s1 where c1: "call (env_snapshot_status env ?repo sn) (SnapshotStatus ?repo sn) s = (r0, s1)"
      by (cases "call (env_snapshot_status env ?repo sn) (SnapshotStatus ?repo sn) s")
    have t1: "trace s1 = trace s @ [SnapshotStatus ?repo sn r0]" using c1 by (rule call_trace)
    show ?thesis
    proof (cases r0)
      case (Inl e)
      with lt c1 "1.prems" have "res = Inl e" "s' = s1" by (simp_all add: wait_loop_raise)
      with t1 Inl show ?thesis by (auto simp: poll_stops_def Cons_eq_append_conv)
    next
      case (Inr resp)
      note c1' = c1 [unfolded Inr]
      show ?thesis
      proof (cases "snapshot_state resp")
        case (Inl e)
        with lt c1' "1.prems" have "res = Inl e" "s' = s1" by (simp_all add: wait_loop_malformed)
        with t1 Inr Inl show ?thesis
          by (auto simp: poll_stops_def Cons_eq_append_conv reports_failure_def)
      next
        case st: (Inr st)
        consider (ok) "st = JStr ''SUCCESS''" | (bad) "st = JStr ''FAILED'' \<or> st = JStr ''PARTIAL''"
          | (go) "st \<noteq> JStr ''SUCCESS''" "st \<noteq> JStr ''FAILED''" "st \<noteq> JStr ''PARTIAL''"
          by blast
        then show ?thesis
        proof cases
          case ok
          with lt c1' st "1.prems" have "res = Inr retries" "s' = s1" by (simp_all add: wait_loop_success)
          with t1 Inr st ok show ?thesis
            by (auto simp: poll_stops_def Cons_eq_append_conv reports_failure_def)
        next
          case bad
          with lt c1' st "1.prems" have "res = Inl (Exception (failed_message n st))" "s' = s1"
            using wait_loop_failed [OF lt c1' st bad] by simp_all
          with t1 Inr st show ?thesis
            by (auto simp: poll_stops_def Cons_eq_append_conv)
        next
          case go
          let ?itv = "snapshot_retry_interval cfg"
          obtain r2 s2 where c2: "call (env_sleep env ?itv) (Sleep ?itv) (print_line (MsgWaiting sn) s1) = (r2, s2)"
            by (cases "call (env_sleep env ?itv) (Sleep ?itv) (print_line (MsgWaiting sn) s1)")
          have t2: "trace s2 = trace s @ [SnapshotStatus ?repo sn (Inr resp), Print (MsgWaiting sn), Sleep ?itv r2]"
            using call_trace [OF c2] t1 Inr by simp
          have nf: "\<not> reports_failure resp" using st go by (simp add: reports_failure_def)
          show ?thesis
          proof (cases r2)
            case (Inl e)
            with lt c1' st go c2 "1.prems" have "res = Inl e" "s' = s2"
              using wait_loop_sleep_raise [OF lt c1' st go c2 [unfolded Inl]] by simp_all
            with t2 nf show ?thesis
              by (auto simp: poll_stops_def Cons_eq_append_conv)
          next
            case (Inr u)
            note c2' = c2 [unfolded Inr]
            have rec: "wait_loop env cfg n sn (retries + 1) s2 = (res, s')"
              using wait_loop_again [OF lt c1' st go c2'] "1.prems" by simp
            have nfp: "\<not> (st = JStr ''FAILED'' \<or> st = JStr ''PARTIAL'')" using go by simp
            from "1.IH" [OF lt c1' [symmetric] refl st go(1) nfp c2' [symmetric] refl rec]
            obtain evs where e: "trace s' = trace s2 @ evs" "\<forall>ev\<in>set evs. wait_event cfg sn ev"
              "poll_stops cfg n sn evs res" by auto
            let ?evs = "[SnapshotStatus ?repo sn (Inr resp), Print (MsgWaiting sn), Sleep ?itv (Inr u)] @ evs"
            have "trace s' = trace s @ ?evs" using e(1) t2 Inr by simp
            moreover have "\<forall>ev\<in>set ?evs. wait_event cfg sn ev" using e(2) by simp
            moreover have "poll_stops cfg n sn ?evs res"
              using e(3) nf unfolding poll_stops_def
              by (auto simp: Cons_eq_append_conv)
            ultimately show ?thesis by blast
          qed
        qed
      qed
    qed
  qed
qed

text \<open>The paths through the body of the inner \<open>try\<close>.\<close>

lemma check_disk_space_events:
  "check_disk_space env path s = (r, s') \<Longrightarrow> \<exists>rd. trace s' = trace s @ [DiskUsage path rd]"
  by (auto simp: check_disk_space_def call_eq split: prod.splits sum.splits if_splits)

lemma try_create_raised:
  "call (env_snapshot_create env (repository_name cfg) sn n) (SnapshotCreate (repository_name cfg) sn n) s = (Inl e, s1)
   \<Longrightarrow> backup_delete_try env cfg n sn s = (Inl e, s1)"
  by (simp add: backup_delete_try_def)

lemma try_wait_raised:
  "call (env_snapshot_create env (repository_name cfg) sn n) (SnapshotCreate (repository_name cfg) sn n) s = (Inr a, s1)
   \<Longrightarrow> wait_loop env cfg n sn 0 (print_line (MsgSnapshotCreated n sn) s1) = (Inl e, s2)
   \<Longrightarrow> backup_delete_try env cfg n sn s = (Inl e, s2)"
  by (simp add: backup_delete_try_def)

lemma try_timed_out:
  "call (env_snapshot_create env (repository_name cfg) sn n) (SnapshotCreate (repository_name cfg) sn n) s = (Inr a, s1)
   \<Longrightarrow> wait_loop env cfg n sn 0 (print_line (MsgSnapshotCreated n sn) s1) = (Inr retries, s2)
   \<Longrightarrow> retries \<ge> snapshot_max_retries cfg
   \<Longrightarrow> backup_delete_try env cfg n sn s = (Inr Next, print_line (MsgTimedOut n) s2)"
  by (simp add: backup_delete_try_def)

lemma try_delete_raised:
  "call (env_snapshot_create env (repository_name cfg) sn n) (SnapshotCreate (repository_name cfg) sn n) s = (Inr a, s1)
   \<Longrightarrow> wait_loop env cfg n sn 0 (print_line (MsgSnapshotCreated n sn) s1) = (Inr retries, s2)
   \<Longrightarrow> retries < snapshot_max_retries cfg
   \<Longrightarrow> call (env_indices_delete env n) (IndicesDelete n) s2 = (Inl e, s3)
   \<Longrightarrow> backup_delete_try env cfg n sn s = (Inl e, s3)"
  by (simp add: backup_delete_try_def)

lemma try_disk_raised:
  "call (env_snapshot_create env (repository_name cfg) sn n) (SnapshotCreate (repository_name cfg) sn n) s = (Inr a, s1)
   \<Longrightarrow> wait_loop env cfg n sn 0 (print_line (MsgSnapshotCreated n sn) s1) = (Inr retries, s2)
   \<Longrightarrow> retries < snapshot_max_retries cfg
   \<Longrightarrow> call (env_indices_delete env n) (IndicesDelete n) s2 = (Inr b, s3)
   \<Longrightarrow> check_disk_space env ''/'' (print_line (MsgDeletedAfterSnapshot n) s3) = (Inl e, s4)
   \<Longrightarrow> backup_delete_try env cfg n sn s = (Inl e, s4)"
  by (simp add: backup_delete_try_def)

lemma try_disk_sampled:
  "call (env_snapshot_create env (repository_name cfg) sn n) (SnapshotCreate (repository_name cfg) sn n) s = (Inr a, s1)
   \<Longrightarrow> wait_loop env cfg n sn 0 (print_line (MsgSnapshotCreated n sn) s1) = (Inr retries, s2)
   \<Longrightarrow> retries < snapshot_max_retries cfg
   \<Longrightarrow> call (env_indices_delete env n) (IndicesDelete n) s2 = (Inr b, s3)
   \<Longrightarrow> check_disk_space env ''/'' (print_line (MsgDeletedAfterSnapshot n) s3) = (Inr p, s4)
   \<Longrightarrow> backup_delete_try env cfg n sn s =
         (if p > real_of_int (disk_usage_threshold cfg)
          then (Inr Return, print_line (MsgDiskAfter (disk_usage_threshold cfg) n) s4)
          else (Inr Next, s4))"
  by (simp add: backup_delete_try_def)

lemma index_of_try:
  "backup_delete_try env cfg n (snapshot_name_of n now) s = (r, s1) \<Longrightarrow>
   backup_delete_index env cfg now (n, d) s =
     (case r of Inr c \<Rightarrow> (c, s1) | Inl e \<Rightarrow> backup_delete_handlers n e s1)"
  by (simp add: backup_delete_index_def split: sum.splits)

text \<open>The seven ways one iteration of the backup loop can go.\<close>

lemma backup_delete_index_cases [consumes 1, case_names create_raised wait_raised timed_out delete_raised disk_raised disk_exceeded archived]:
  assumes run: "backup_delete_index env cfg now (n, d) s = (c, s')"
  obtains
    (create_raised) e s1 where
      "call (env_snapshot_create env (repository_name cfg) (snapshot_name_of n now) n)
            (SnapshotCreate (repository_name cfg) (snapshot_name_of n now) n) s = (Inl e, s1)"
      "backup_delete_handlers n e s1 = (c, s')"
  | (wait_raised) a s1 e s2 where
      "call (env_snapshot_create env (repository_name cfg) (snapshot_name_of n now) n)
            (SnapshotCreate (repository_name cfg) (snapshot_name_of n now) n) s = (Inr a, s1)"
      "wait_loop env cfg n (snapshot_name_of n now) 0
         (print_line (MsgSnapshotCreated n (snapshot_name_of n now)) s1) = (Inl e, s2)"
      "backup_delete_handlers n e s2 = (c, s')"
  | (timed_out) a s1 retries s2 where
      "call (env_snapshot_create env (repository_name cfg) (snapshot_name_of n now) n)
            (SnapshotCreate (repository_name cfg) (snapshot_name_of n now) n) s = (Inr a, s1)"
      "wait_loop env cfg n (snapshot_name_of n now) 0
         (print_line (MsgSnapshotCreated n (snapshot_name_of n now)) s1) = (Inr retries, s2)"
      "retries \<ge> snapshot_max_retries cfg" "c = Next" "s' = print_line (MsgTimedOut n) s2"
  | (delete_raised) a s1 retries s2 e s3 where
      "call (env_snapshot_create env (repository_name cfg) (snapshot_name_of n now) n)
            (SnapshotCreate (repository_name cfg) (snapshot_name_of n now) n) s = (Inr a, s1)"
      "wait_loop env cfg n (snapshot_name_of n now) 0
         (print_line (MsgSnapshotCreated n (snapshot_name_of n now)) s1) = (Inr retries, s2)"
      "retries < snapshot_max_retries cfg"
      "call (env_indices_delete env n) (IndicesDelete n) s2 = (Inl e, s3)"
      "backup_delete_handlers n e s3 = (c, s')"
  | (disk_raised) a s1 retries s2 b s3 e s4 where
      "call (env_snapshot_create env (repository_name cfg) (snapshot_name_of n now) n)
            (SnapshotCreate (repository_name cfg) (snapshot_name_of n now) n) s = (Inr a, s1)"
      "wait_loop env cfg n (snapshot_name_of n now) 0
         (print_line (MsgSnapshotCreated n (snapshot_name_of n now)) s1) = (Inr retries, s2)"
      "retries < snapshot_max_retries cfg"
      "call (env_indices_delete env n) (IndicesDelete n) s2 = (Inr b, s3)"
      "check_disk_space env ''/'' (print_line (MsgDeletedAfterSnapshot n) s3) = (Inl e, s4)"
      "backup_delete_handlers n e s4 = (c, s')"
  | (disk_exceeded) a s1 retries s2 b s3 p s4 where
      "call (env_snapshot_create env (repository_name cfg) (snapshot_name_of n now) n)
            (SnapshotCreate (repository_name cfg) (snapshot_name_of n now) n) s = (Inr a, s1)"
      "wait_loop env cfg n (snapshot_name_of n now) 0
         (print_line (MsgSnapshotCreated n (snapshot_name_of n now)) s1) = (Inr retries, s2)"
      "retries < snapshot_max_retries cfg"
      "call (env_indices_delete env n) (IndicesDelete n) s2 = (Inr b, s3)"
      "check_disk_space env ''/'' (print_line (MsgDeletedAfterSnapshot n) s3) = (Inr p, s4)"
      "p > real_of_int (disk_usage_threshold cfg)"
      "c = Return" "s' = print_line (MsgDiskAfter (disk_usage_threshold cfg) n) s4"
  | (archived) a s1 retries s2 b s3 p s4 where
      "call (env_snapshot_create env (repository_name cfg) (snapshot_name_of n now) n)
            (SnapshotCreate (repository_name cfg) (snapshot_name_of n now) n) s = (Inr a, s1)"
      "wait_loop env cfg n (snapshot_name_of n now) 0
         (print_line (MsgSnapshotCreated n (snapshot_name_of n now)) s1) = (Inr retries, s2)"
      "retries < snapshot_max_retries cfg"
      "call (env_indices_delete env n) (IndicesDelete n) s2 = (Inr b, s3)"
      "check_disk_space env ''/'' (print_line (MsgDeletedAfterSnapshot n) s3) = (Inr p, s4)"
      "\<not> p > real_of_int (disk_usage_threshold cfg)"
      "c = Next" "s' = s4"
proof -
  let ?sn = "snapshot_name_of n now"
  let ?repo = "repository_name cfg"
  obtain r1 s1 where c1: "call (env_snapshot_create env ?repo ?sn n) (SnapshotCreate ?repo ?sn n) s = (r1, s1)"
    by (rule prod.exhaust)
  show thesis
  proof (cases r1)
    case (Inl e)
    note c1' = c1 [unfolded Inl]
    have "backup_delete_handlers n e s1 = (c, s')"
      using run index_of_try [OF try_create_raised [OF c1']] by simp
    then show thesis by (rule create_raised [OF c1'])
  next
    case a: (Inr a)
    note c1' = c1 [unfolded a]
    obtain r2 s2 where c2: "wait_loop env cfg n ?sn 0 (print_line (MsgSnapshotCreated n ?sn) s1) = (r2, s2)"
      by (rule prod.exhaust)
    show thesis
    proof (cases r2)
      case (Inl e)
      note c2' = c2 [unfolded Inl]
      have "backup_delete_handlers n e s2 = (c, s')"
        using run index_of_try [OF try_wait_raised [OF c1' c2']] by simp
      then show thesis by (rule wait_raised [OF c1' c2'])
    next
      case r: (Inr retries)
      note c2' = c2 [unfolded r]
      show thesis
      proof (cases "retries \<ge> snapshot_max_retries cfg")
        case True
        have "c = Next \<and> s' = print_line (MsgTimedOut n) s2"
          using run index_of_try [OF try_timed_out [OF c1' c2' True]] by simp
        then show thesis using timed_out [OF c1' c2' True] by simp
      next
        case False
        then have lt: "retries < snapshot_max_retries cfg" by simp
        obtain r3 s3 where c3: "call (env_indices_delete env n) (IndicesDelete n) s2 = (r3, s3)"
          by (rule prod.exhaust)
        show thesis
        proof (cases r3)
          case (Inl e)
          note c3' = c3 [unfolded Inl]
          have "backup_delete_handlers n e s3 = (c, s')"
            using run index_of_try [OF try_delete_raised [OF c1' c2' lt c3']] by simp
          then show thesis by (rule delete_raised [OF c1' c2' lt c3'])
        next
          case b: (Inr b)
          note c3' = c3 [unfolded b]
          obtain r4 s4 where c4: "check_disk_space env ''/'' (print_line (MsgDeletedAfterSnapshot n) s3) = (r4, s4)"
            by (rule prod.exhaust)
          show thesis
          proof (cases r4)
            case (Inl e)
            note c4' = c4 [unfolded Inl]
            have "backup_delete_handlers n e s4 = (c, s')"
              using run index_of_try [OF try_disk_raised [OF c1' c2' lt c3' c4']] by simp
            then show thesis by (rule disk_raised [OF c1' c2' lt c3' c4'])
          next
            case p: (Inr p)
            note c4' = c4 [unfolded p]
            note t = try_disk_sampled [OF c1' c2' lt c3' c4']
            show thesis
            proof (cases "p > real_of_int (disk_usage_threshold cfg)")
              case True
              have "c = Return \<and> s' = print_line (MsgDiskAfter (disk_usage_threshold cfg) n) s4"
                using run t True by (simp add: backup_delete_index_def)
              then show thesis using disk_exceeded [OF c1' c2' lt c3' c4' True] by simp
            next
              case nx: False
              have "c = Next \<and> s' = s4" using run t nx by (simp add: backup_delete_index_def)
              then show thesis using archived [OF c1' c2' lt c3' c4' nx] by simp
            qed
          qed
        qed
      qed
    qed
  qed
qed

section \<open>What one iteration, the loop and the whole run add to the trace\<close>

lemma backup_delete_handlers_events:
  "backup_delete_handlers n e s = (c, s') \<Longrightarrow>
   (c = Next \<and> isinstance_Exception e \<and>
      (s' = print_line (MsgFailedSnapshot n e) s \<or> s' = print_line (MsgErrorProcessing n e) s))
   \<or> (c = Raise e \<and> \<not> isinstance_Exception e \<and> s' = s)"
  by (auto simp: backup_delete_handlers_def isinstance_RequestError_def isinstance_Exception_def
           split: if_splits)

lemma wait_events_no_timeout:
  "\<forall>ev\<in>set evs. wait_event cfg sn ev \<Longrightarrow> Print (MsgTimedOut m) \<notin> set evs"
  by auto

lemma wait_failure_raises:
  assumes "\<forall>ev\<in>set evs. wait_event cfg sn ev" "poll_stops cfg n sn evs res"
    and "ev \<in> set evs" "per_index_failure ev"
  shows "\<exists>m. res = Inl (Exception m)"
proof -
  from assms(1,3) have w: "wait_event cfg sn ev" by blast
  from w assms(4) obtain resp where
    ev: "ev = SnapshotStatus (repository_name cfg) sn (Inr resp)" and f: "reports_failure resp"
    by (cases ev rule: per_index_failure.cases) auto
  from assms(3) obtain pre post where "evs = pre @ ev # post" by (auto dest: split_list)
  with assms(2) ev f show ?thesis unfolding poll_stops_def by blast
qed


lemma backup_delete_index_events:
  assumes run: "backup_delete_index env cfg now (n, d) s = (c, s')"
  shows "\<exists>evs. trace s' = trace s @ evs \<and> iteration_ok n evs c"
  using run
proof (cases rule: backup_delete_index_cases)
  case (create_raised e s1)
  note t1 = call_trace [OF create_raised(1)]
  from backup_delete_handlers_events [OF create_raised(2)] t1 show ?thesis
    by (auto simp: iteration_ok_def)
next
  case (wait_raised a s1 e s2)
  note t1 = call_trace [OF wait_raised(1)]
  from wait_loop_events [OF wait_raised(2)] obtain wevs where
    w: "trace s2 = trace (print_line (MsgSnapshotCreated n (snapshot_name_of n now)) s1) @ wevs"
       "\<forall>ev\<in>set wevs. wait_event cfg (snapshot_name_of n now) ev"
       "poll_stops cfg n (snapshot_name_of n now) wevs (Inl e)" by blast
  note q = wait_events_quiet [OF w(2)] wait_events_no_timeout [OF w(2)]
  have f: "\<And>ev. ev \<in> set wevs \<Longrightarrow> per_index_failure ev \<Longrightarrow> isinstance_Exception e"
    using wait_failure_raises [OF w(2,3)] by (auto simp: isinstance_Exception_def)
  from backup_delete_handlers_events [OF wait_raised(3)] t1 w(1) q f show ?thesis
    by (auto simp: iteration_ok_def)
next
  case (timed_out a s1 retries s2)
  note t1 = call_trace [OF timed_out(1)]
  from wait_loop_events [OF timed_out(2)] obtain wevs where
    w: "trace s2 = trace (print_line (MsgSnapshotCreated n (snapshot_name_of n now)) s1) @ wevs"
       "\<forall>ev\<in>set wevs. wait_event cfg (snapshot_name_of n now) ev" by blast
  note q = wait_events_quiet [OF w(2)] wait_events_no_timeout [OF w(2)]
  from timed_out(4,5) t1 w(1) q show ?thesis
    by (auto simp: iteration_ok_def)
next
  case (delete_raised a s1 retries s2 e s3)
  note t1 = call_trace [OF delete_raised(1)]
  note t3 = call_trace [OF delete_raised(4)]
  from wait_loop_events [OF delete_raised(2)] obtain wevs where
    w: "trace s2 = trace (print_line (MsgSnapshotCreated n (snapshot_name_of n now)) s1) @ wevs"
       "\<forall>ev\<in>set wevs. wait_event cfg (snapshot_name_of n now) ev"
       "poll_stops cfg n (snapshot_name_of n now) wevs (Inr retries)" by blast
  note q = wait_events_quiet [OF w(2)] wait_events_no_timeout [OF w(2)]
  have f: "\<And>ev. ev \<in> set wevs \<Longrightarrow> per_index_failure ev \<Longrightarrow> False"
    using wait_failure_raises [OF w(2,3)] by auto
  from backup_delete_handlers_events [OF delete_raised(5)] t1 t3 w(1) q f show ?thesis
    by (auto simp: iteration_ok_def)
next
  case (disk_raised a s1 retries s2 b s3 e s4)
  note t1 = call_trace [OF disk_raised(1)]
  note t3 = call_trace [OF disk_raised(4)]
  from check_disk_space_events [OF disk_raised(5)] obtain rd where
    t4: "trace s4 = trace (print_line (MsgDeletedAfterSnapshot n) s3) @ [DiskUsage ''/'' rd]" by blast
  from wait_loop_events [OF disk_raised(2)] obtain wevs where
    w: "trace s2 = trace (print_line (MsgSnapshotCreated n (snapshot_name_of n now)) s1) @ wevs"
       "\<forall>ev\<in>set wevs. wait_event cfg (snapshot_name_of n now) ev"
       "poll_stops cfg n (snapshot_name_of n now) wevs (Inr retries)" by blast
  note q = wait_events_quiet [OF w(2)] wait_events_no_timeout [OF w(2)]
  have f: "\<And>ev. ev \<in> set wevs \<Longrightarrow> per_index_failure ev \<Longrightarrow> False"
    using wait_failure_raises [OF w(2,3)] by auto
  from backup_delete_handlers_events [OF disk_raised(6)] t1 t3 t4 w(1) q f show ?thesis
    by (auto simp: iteration_ok_def)
next
  case (disk_exceeded a s1 retries s2 b s3 p s4)
  note t1 = call_trace [OF disk_exceeded(1)]
  note t3 = call_trace [OF disk_exceeded(4)]
  from check_disk_space_events [OF disk_exceeded(5)] obtain rd where
    t4: "trace s4 = trace (print_line (MsgDeletedAfterSnapshot n) s3) @ [DiskUsage ''/'' rd]" by blast
  from wait_loop_events [OF disk_exceeded(2)] obtain wevs where
    w: "trace s2 = trace (print_line (MsgSnapshotCreated n (snapshot_name_of n now)) s1) @ wevs"
       "\<forall>ev\<in>set wevs. wait_event cfg (snapshot_name_of n now) ev"
       "poll_stops cfg n (snapshot_name_of n now) wevs (Inr retries)" by blast
  note q = wait_events_quiet [OF w(2)] wait_events_no_timeout [OF w(2)]
  have f: "\<And>ev. ev \<in> set wevs \<Longrightarrow> per_index_failure ev \<Longrightarrow> False"
    using wait_failure_raises [OF w(2,3)] by auto
  from disk_exceeded(7,8) t1 t3 t4 w(1) q f show ?thesis
    by (auto simp: iteration_ok_def)
next
  case (archived a s1 retries s2 b s3 p s4)
  note t1 = call_trace [OF archived(1)]
  note t3 = call_trace [OF archived(4)]
  from check_disk_space_events [OF archived(5)] obtain rd where
    t4: "trace s4 = trace (print_line (MsgDeletedAfterSnapshot n) s3) @ [DiskUsage ''/'' rd]" by blast
  from wait_loop_events [OF archived(2)] obtain wevs where
    w: "trace s2 = trace (print_line (MsgSnapshotCreated n (snapshot_name_of n now)) s1) @ wevs"
       "\<forall>ev\<in>set wevs. wait_event cfg (snapshot_name_of n now) ev"
       "poll_stops cfg n (snapshot_name_of n now) wevs (Inr retries)" by blast
  note q = wait_events_quiet [OF w(2)] wait_events_no_timeout [OF w(2)]
  have f: "\<And>ev. ev \<in> set wevs \<Longrightarrow> per_index_failure ev \<Longrightarrow> False"
    using wait_failure_raises [OF w(2,3)] by auto
  from archived(7,8) t1 t3 t4 w(1) q f show ?thesis
    by (auto simp: iteration_ok_def)
qed


lemma backup_delete_loop_events:
  "backup_delete_loop env cfg now xs s = (c, s') \<Longrightarrow>
   \<exists>evs. trace s' = trace s @ evs \<and> loop_ok (map fst xs) evs c"
proof (induction xs arbitrary: s)
  case Nil
  then show ?case by (simp add: loop_ok_def)
next
  case (Cons item xs)
  obtain n d where item: "item = (n, d)" by (cases item)
  obtain c1 s1 where it: "backup_delete_index env cfg now (n, d) s = (c1, s1)" by (rule prod.exhaust)
  from backup_delete_index_events [OF it] obtain evs1 where
    e1: "trace s1 = trace s @ evs1" "iteration_ok n evs1 c1" by blast
  show ?case
  proof (cases "c1 = Next")
    case False
    with Cons.prems it item have "c = c1" "s' = s1" by (cases c1; simp)+
    with e1 False item show ?thesis
      by (auto simp: loop_ok_def iteration_ok_def)
  next
    case True
    with Cons.prems it item have "backup_delete_loop env cfg now xs s1 = (c, s')" by simp
    from Cons.IH [OF this] obtain evs2 where
      e2: "trace s' = trace s1 @ evs2" "loop_ok (map fst xs) evs2 c" by blast
    have "trace s' = trace s @ (evs1 @ evs2)" using e1(1) e2(1) by simp
    moreover have "loop_ok (map fst (item # xs)) (evs1 @ evs2) c"
      using e1(2) e2(2) item unfolding loop_ok_def iteration_ok_def
      by (auto simp: subset_iff)
    ultimately show ?thesis by blast
  qed
qed


lemma trace_print_indices:
  "trace (print_indices xs s) = trace s @ map (\<lambda>x. Print (MsgIndex (fst x))) xs"
  by (induction xs s rule: print_indices.induct) auto

lemma world_print_indices [simp]: "world (print_indices xs s) = world s"
  by (induction xs s rule: print_indices.induct) auto

lemma quiet_index_lines: "quiet (map (\<lambda>x. Print (MsgIndex (fst x))) xs)"
  by (induction xs) (auto simp: quiet_def)

lemma quiet_append: "quiet (xs @ ys) = (quiet xs \<and> quiet ys)"
  by (auto simp: quiet_def)

lemma outer_handlers_events:
  "outer_handlers e s = (res, s') \<Longrightarrow>
   (isinstance_Exception e \<and> res = Inr () \<and>
      (\<exists>m. s' = print_line m s \<and>
           m \<in> {MsgConnectionError e, MsgAuthorization e, MsgRequestError e, MsgErrorRetrieving e}))
   \<or> (\<not> isinstance_Exception e \<and> res = Inl e \<and> s' = s)"
  by (auto simp: outer_handlers_def isinstance_RequestError_def isinstance_Exception_def
        isinstance_ConnectionError_def isinstance_AuthorizationException_def split: if_splits)

lemma backup_delete_run:
  assumes run: "list_backup_delete_old_indices env cfg s = (res, s')"
  shows "\<exists>evs. trace s' = trace s @ evs \<and> (\<forall>e. res = Inl e \<longrightarrow> \<not> isinstance_Exception e) \<and>
          (quiet evs \<or>
           (\<exists>indices w1 now w2 pre lp c s4.
              env_get_alias env (world s) = (Inr indices, w1) \<and> env_now env w1 = (now, w2) \<and>
              evs = pre @ lp \<and> quiet pre \<and> trace s4 = trace s @ pre \<and>
              backup_delete_loop env cfg now
                (old_indices_backup_delete indices now (redundancy_period_days cfg)) s4 = (c, s') \<and>
              loop_ok (map fst (old_indices_backup_delete indices now (redundancy_period_days cfg))) lp c))"
proof -
  obtain r1 s1 where c1: "call (env_get_alias env) GetAlias s = (r1, s1)" by (rule prod.exhaust)
  note t1 = call_trace [OF c1]
  show ?thesis
  proof (cases r1)
    case (Inl e)
    with run c1 have "outer_handlers e s1 = (res, s')"
      by (simp add: list_backup_delete_old_indices_def backup_delete_body_def)
    from outer_handlers_events [OF this] t1 Inl show ?thesis
      by (auto simp: quiet_def)
  next
    case (Inr indices)
    from c1 Inr obtain w1 where g: "env_get_alias env (world s) = (Inr indices, w1)" "world s1 = w1"
      by (auto simp: call_eq)
    obtain now s2 where c2: "call (env_now env) Now s1 = (now, s2)" by (rule prod.exhaust)
    note t2 = call_trace [OF c2]
    from c2 g(2) obtain w2 where nw: "env_now env w1 = (now, w2)" by (auto simp: call_eq)
    let ?old = "old_indices_backup_delete indices now (redundancy_period_days cfg)"
    let ?s3 = "print_indices ?old (print_line (MsgOlderThan (redundancy_period_days cfg)) s2)"
    obtain r4 s4 where c4: "check_disk_space env ''/'' ?s3 = (r4, s4)" by (rule prod.exhaust)
    from check_disk_space_events [OF c4] obtain rd where t4: "trace s4 = trace ?s3 @ [DiskUsage ''/'' rd]"
      by blast
    let ?pre = "[GetAlias r1, Now now, Print (MsgOlderThan (redundancy_period_days cfg))]
                @ map (\<lambda>x. Print (MsgIndex (fst x))) ?old @ [DiskUsage ''/'' rd]"
    have pre: "trace s4 = trace s @ ?pre" using t1 t2 t4 by (simp add: trace_print_indices)
    have qpre: "quiet ?pre" using quiet_index_lines [of ?old] by (simp add: quiet_append) (simp add: quiet_def)
    show ?thesis
    proof (cases r4)
      case (Inl e)
      with run c1 Inr c2 c4 have "outer_handlers e s4 = (res, s')"
        by (simp add: list_backup_delete_old_indices_def backup_delete_body_def Let_def)
      from outer_handlers_events [OF this] pre qpre show ?thesis
        by (auto simp: quiet_def)
    next
      case p: (Inr p)
      show ?thesis
      proof (cases "p > real_of_int (disk_usage_threshold cfg)")
        case True
        with run c1 Inr c2 c4 p have "res = Inr ()" "s' = print_line (MsgDiskBefore (disk_usage_threshold cfg)) s4"
          by (simp_all add: list_backup_delete_old_indices_def backup_delete_body_def Let_def)
        with pre qpre show ?thesis by (auto simp: quiet_def)
      next
        case False
        obtain c s5 where c5: "backup_delete_loop env cfg now ?old s4 = (c, s5)" by (rule prod.exhaust)
        from backup_delete_loop_events [OF c5] obtain lp where
          lp: "trace s5 = trace s4 @ lp" "loop_ok (map fst ?old) lp c" by blast
        have r: "(res, s') = (case c of Raise e \<Rightarrow> outer_handlers e s5 | _ \<Rightarrow> (Inr (), s5))"
          using run c1 Inr c2 c4 p False c5
          by (simp add: list_backup_delete_old_indices_def backup_delete_body_def Let_def split: ctl.splits)
        have "s' = s5 \<and> (\<forall>e. res = Inl e \<longrightarrow> \<not> isinstance_Exception e)"
        proof (cases c)
          case (Raise e)
          with lp(2) have "\<not> isinstance_Exception e" by (simp add: loop_ok_def)
          with r Raise outer_handlers_events [of e s5 res s'] show ?thesis by auto
        qed (use r in auto)
        with lp pre have "trace s' = trace s @ (?pre @ lp)" by simp
        moreover have "backup_delete_loop env cfg now ?old s4 = (c, s')"
          using c5 \<open>s' = s5 \<and> _\<close> by simp
        ultimately show ?thesis using qpre lp(2) g(1) nw pre \<open>s' = s5 \<and> _\<close> by blast
      qed
    qed
  qed
qed

section \<open>Safety of the backup mode\<close>

lemma fst_stale_item: "stale_item now thr x = Some y \<Longrightarrow> fst y = fst x"
  by (auto simp: stale_item_def split: option.splits if_splits)

lemma set_map_fst_stale:
  "set (map fst (List.map_filter (stale_item now thr) xs)) \<subseteq> set (map fst xs)"
  by (induction xs) (auto split: option.splits dest: fst_stale_item)

lemma distinct_map_fst_stale:
  "distinct (map fst xs) \<Longrightarrow> distinct (map fst (List.map_filter (stale_item now thr) xs))"
proof (induction xs)
  case Nil
  show ?case by simp
next
  case (Cons x xs)
  from Cons have IH: "distinct (map fst (List.map_filter (stale_item now thr) xs))"
    and nx: "fst x \<notin> set (map fst xs)" by simp_all
  show ?case
  proof (cases "stale_item now thr x")
    case None
    with IH show ?thesis by simp
  next
    case (Some y)
    have "fst y \<notin> set (map fst (List.map_filter (stale_item now thr) xs))"
      using nx set_map_fst_stale [of now thr xs] fst_stale_item [OF Some] by auto
    with IH Some show ?thesis by simp
  qed
qed

lemma distinct_map_insort_key:
  "distinct (map g (insort_key f x xs)) = (g x \<notin> g ` set xs \<and> distinct (map g xs))"
  by (induction xs) (auto simp: set_insort_key)

lemma distinct_map_sort_key: "distinct (map g (sort_key f xs)) = distinct (map g xs)"
  by (induction xs) (auto simp: sort_key_def distinct_map_insort_key simp flip: sort_key_def)

lemma distinct_old_indices_backup_delete:
  "distinct (map fst indices) \<Longrightarrow> distinct (map fst (old_indices_backup_delete indices now thr))"
  by (simp add: old_indices_backup_delete_def collect_old_backup_delete_eq
        distinct_map_sort_key distinct_map_fst_stale)

text \<open>
  C3. In backup_delete mode, if the disk sample taken before the loop (line 73) is
  strictly greater than \<open>disk_usage_threshold\<close>, the function returns normally and the
  run has made no \<open>snapshot.create\<close> call and no \<open>indices.delete\<close> call; the last thing
  it did is print the warning of lines 74-76.
\<close>

theorem disk_gate_before_loop:
  assumes "env_get_alias env (world s) = (Inr indices, w1)"
    and "env_now env w1 = (now, w2)"
    and "env_disk_usage env ''/'' w2 = (Inr (total_b, used_b, free_b), w3)"
    and "total_b \<noteq> 0"
    and "env_fl env (env_fl env (real_of_int used_b / real_of_int total_b) * 100)
           > real_of_int (disk_usage_threshold cfg)"
    and "list_backup_delete_old_indices env cfg s = (res, s')"
    and "trace s' = trace s @ evs"
  shows "res = Inr () \<and> created_names evs = [] \<and> deleted_names evs = [] \<and>
         last evs = Print (MsgDiskBefore (disk_usage_threshold cfg))"
proof -
  let ?old = "old_indices_backup_delete indices now (redundancy_period_days cfg)"
  let ?pre = "[GetAlias (Inr indices), Now now, Print (MsgOlderThan (redundancy_period_days cfg))]
              @ map (\<lambda>x. Print (MsgIndex (fst x))) ?old
              @ [DiskUsage ''/'' (Inr (total_b, used_b, free_b)), Print (MsgDiskBefore (disk_usage_threshold cfg))]"
  have "list_backup_delete_old_indices env cfg s = (Inr (), \<lparr>world = w3, trace = trace s @ ?pre\<rparr>)"
    using assms(1-5)
    by (simp add: list_backup_delete_old_indices_def backup_delete_body_def call_def
          check_disk_space_def Let_def trace_print_indices print_line_def)
  with assms(6,7) have "res = Inr ()" "evs = ?pre" by auto
  moreover have "quiet ?pre" using quiet_index_lines [of ?old] by (simp add: quiet_append) (simp add: quiet_def)
  ultimately show ?thesis by (simp add: quiet_def)
qed


text \<open>Disk at 96 percent with threshold 90.\<close>

theorem disk_gate_before_loop_witness:
  "env_get_alias full_disk_cluster (world start) = (Inr logs_listing, 0)
   \<and> env_now full_disk_cluster 0 = (midnight 2024 1 1, 0)
   \<and> env_disk_usage full_disk_cluster ''/'' 0 = (Inr (100, 96, 4), 0)
   \<and> env_fl full_disk_cluster (env_fl full_disk_cluster (real_of_int 96 / real_of_int 100) * 100)
        > real_of_int (disk_usage_threshold (settings 3))
   \<and> fst (list_backup_delete_old_indices full_disk_cluster (settings 3) start) = Inr ()
   \<and> created_names (trace (snd (list_backup_delete_old_indices full_disk_cluster (settings 3) start))) = []
   \<and> deleted_names (trace (snd (list_backup_delete_old_indices full_disk_cluster (settings 3) start))) = []"
proof -
  let ?run = "list_backup_delete_old_indices full_disk_cluster (settings 3) start"
  have h1: "env_get_alias full_disk_cluster (world start) = (Inr logs_listing, 0)"
    by (simp add: full_disk_cluster_def scenario_def start_def)
  have h2: "env_now full_disk_cluster 0 = (midnight 2024 1 1, 0)"
    by (simp add: full_disk_cluster_def scenario_def)
  have h3: "env_disk_usage full_disk_cluster ''/'' 0 = (Inr (100, 96, 4), 0)"
    by (simp add: full_disk_cluster_def scenario_def)
  have h4: "(100::int) \<noteq> 0" by simp
  have h5: "env_fl full_disk_cluster (env_fl full_disk_cluster (real_of_int 96 / real_of_int 100) * 100)
              > real_of_int (disk_usage_threshold (settings 3))"
    by (simp add: full_disk_cluster_def scenario_def settings_def)
  have h6: "?run = (fst ?run, snd ?run)" by simp
  have h7: "trace (snd ?run) = trace start @ trace (snd ?run)" by (simp add: start_def)
  show ?thesis
    using disk_gate_before_loop [OF h1 h2 h3 h4 h5 h6 h7] h1 h2 h3 h5 by simp
qed

section \<open>No retry allowed\<close>

lemma all_timed_out_append:
  "all_timed_out xs \<Longrightarrow> all_timed_out ys \<Longrightarrow> all_timed_out (xs @ ys)"
  unfolding all_timed_out_def by (simp, blast)

lemma quiet_all_timed_out: "quiet evs \<Longrightarrow> all_timed_out evs"
  by (auto simp: quiet_def all_timed_out_def)

lemma backup_delete_index_no_retries:
  assumes z: "snapshot_max_retries cfg \<le> 0"
    and run: "backup_delete_index env cfg now (n, d) s = (c, s')"
  shows "\<exists>evs. trace s' = trace s @ evs \<and> all_timed_out evs"
proof -
  from z have nlt: "\<not> 0 < snapshot_max_retries cfg" by simp
  note ex = wait_loop_exit [OF nlt]
  from run show ?thesis
  proof (cases rule: backup_delete_index_cases)
    case (create_raised e s1)
    from backup_delete_handlers_events [OF create_raised(2)] call_trace [OF create_raised(1)]
    show ?thesis by (auto simp: all_timed_out_def)
  next
    case (wait_raised a s1 e s2)
    then show ?thesis by (simp add: ex)
  next
    case (timed_out a s1 retries s2)
    from timed_out(2) have "s2 = print_line (MsgSnapshotCreated n (snapshot_name_of n now)) s1"
      by (simp add: ex)
    with timed_out(5) call_trace [OF timed_out(1)] show ?thesis
      by (auto simp: all_timed_out_def)
  next
    case (delete_raised a s1 retries s2 e s3)
    then show ?thesis using z by (simp add: ex)
  next
    case (disk_raised a s1 retries s2 b s3 e s4)
    then show ?thesis using z by (simp add: ex)
  next
    case (disk_exceeded a s1 retries s2 b s3 p s4)
    then show ?thesis using z by (simp add: ex)
  next
    case (archived a s1 retries s2 b s3 p s4)
    then show ?thesis using z by (simp add: ex)
  qed
qed

lemma backup_delete_loop_no_retries:
  "snapshot_max_retries cfg \<le> 0 \<Longrightarrow> backup_delete_loop env cfg now xs s = (c, s') \<Longrightarrow>
   \<exists>evs. trace s' = trace s @ evs \<and> all_timed_out evs"
proof (induction xs arbitrary: s)
  case Nil
  then show ?case by (simp add: all_timed_out_def)
next
  case (Cons item xs)
  obtain n d where item: "item = (n, d)" by (cases item)
  obtain c1 s1 where it: "backup_delete_index env cfg now (n, d) s = (c1, s1)" by (rule prod.exhaust)
  from backup_delete_index_no_retries [OF Cons.prems(1) it] obtain evs1 where
    e1: "trace s1 = trace s @ evs1" "all_timed_out evs1" by blast
  show ?case
  proof (cases "c1 = Next")
    case False
    with Cons.prems it item have "s' = s1" by (cases c1; simp)+
    with e1 show ?thesis by blast
  next
    case True
    with Cons.prems it item have "backup_delete_loop env cfg now xs s1 = (c, s')" by simp
    from Cons.IH [OF Cons.prems(1) this] obtain evs2 where
      e2: "trace s' = trace s1 @ evs2" "all_timed_out evs2" by blast
    have "trace s' = trace s @ (evs1 @ evs2)" using e1(1) e2(1) by simp
    with all_timed_out_append [OF e1(2) e2(2)] show ?thesis by blast
  qed
qed

text \<open>
  C10. With \<open>snapshot_max_retries = 0\<close> the condition of the \<open>while\<close> loop is false at
  once: a run of the backup mode makes no \<open>snapshot.status\<close> call and no
  \<open>indices.delete\<close> call, and every index whose snapshot request was acknowledged gets
  the time-out line, whatever state the snapshot is in.
\<close>

theorem no_retries_no_poll_no_delete:
  assumes "snapshot_max_retries cfg = 0"
    and "list_backup_delete_old_indices env cfg s = (res, s')"
    and "trace s' = trace s @ evs"
  shows "status_polls evs = [] \<and> deleted_names evs = [] \<and>
         (\<forall>repo sn index_name a. SnapshotCreate repo sn index_name (Inr a) \<in> set evs \<longrightarrow>
            Print (MsgTimedOut index_name) \<in> set evs)"
proof -
  from backup_delete_run [OF assms(2)] assms(3) have
    "quiet evs \<or>
     (\<exists>indices now pre lp c s4. evs = pre @ lp \<and> quiet pre \<and> trace s4 = trace s @ pre \<and>
        backup_delete_loop env cfg now
          (old_indices_backup_delete indices now (redundancy_period_days cfg)) s4 = (c, s'))"
    by fastforce
  then have "all_timed_out evs"
  proof
    assume "quiet evs" then show ?thesis by (rule quiet_all_timed_out)
  next
    assume "\<exists>indices now pre lp c s4. evs = pre @ lp \<and> quiet pre \<and> trace s4 = trace s @ pre \<and>
        backup_delete_loop env cfg now
          (old_indices_backup_delete indices now (redundancy_period_days cfg)) s4 = (c, s')"
    then obtain indices now pre lp c s4 where
      e: "evs = pre @ lp" "quiet pre" "trace s4 = trace s @ pre"
         "backup_delete_loop env cfg now
            (old_indices_backup_delete indices now (redundancy_period_days cfg)) s4 = (c, s')"
      by blast
    from assms(1) have "snapshot_max_retries cfg \<le> 0" by simp
    from backup_delete_loop_no_retries [OF this e(4)] obtain lp' where
      l: "trace s' = trace s4 @ lp'" "all_timed_out lp'" by blast
    from l(1) e(1,3) assms(3) have "lp' = lp" by simp
    with l(2) e(1,2) show ?thesis by (simp add: all_timed_out_append quiet_all_timed_out)
  qed
  then show ?thesis by (simp add: all_timed_out_def)
qed

text \<open>
  The snapshots would be reported SUCCESS at the first poll; with no retry allowed they are
  never polled, and the index stays.
\<close>

theorem no_retries_no_poll_no_delete_witness:
  "snapshot_max_retries (settings 0) = 0
   \<and> SnapshotCreate ''repo'' (snapshot_name_of ''logs-2023.01.01'' (midnight 2024 1 1)) ''logs-2023.01.01'' (Inr ack)
        \<in> set (trace (snd (list_backup_delete_old_indices healthy_cluster (settings 0) start)))
   \<and> Print (MsgTimedOut ''logs-2023.01.01'')
        \<in> set (trace (snd (list_backup_delete_old_indices healthy_cluster (settings 0) start)))
   \<and> status_polls (trace (snd (list_backup_delete_old_indices healthy_cluster (settings 0) start))) = []
   \<and> deleted_names (trace (snd (list_backup_delete_old_indices healthy_cluster (settings 0) start))) = []"
proof -
  let ?run = "list_backup_delete_old_indices healthy_cluster (settings 0) start"
  have h1: "snapshot_max_retries (settings 0) = 0" by (simp add: settings_def)
  have h2: "?run = (fst ?run, snd ?run)" by simp
  have h3: "trace (snd ?run) = trace start @ trace (snd ?run)" by (simp add: start_def)
  have h4: "SnapshotCreate ''repo'' (snapshot_name_of ''logs-2023.01.01'' (midnight 2024 1 1))
              ''logs-2023.01.01'' (Inr ack) \<in> set (trace (snd ?run))"
    by code_simp
  show ?thesis
    using no_retries_no_poll_no_delete [OF h1 h2 h3] h1 h4 by blast
qed

section \<open>A failed snapshot\<close>

lemma status_polls_member:
  "SnapshotStatus repo sn r \<in> set evs \<Longrightarrow> status_polls evs \<noteq> []"
  by (induction evs rule: status_polls.induct) auto

lemma poll_after_prefix:
  "status_polls A = [] \<Longrightarrow> A @ R = pre @ SnapshotStatus repo sn r # post \<Longrightarrow>
   \<exists>pre'. pre = A @ pre' \<and> R = pre' @ SnapshotStatus repo sn r # post"
proof (induction A arbitrary: pre)
  case Nil
  then show ?case by simp
next
  case (Cons a A)
  from Cons.prems(1) have na: "a \<noteq> SnapshotStatus repo sn r" and sA: "status_polls A = []"
    by (cases a; simp)+
  from Cons.prems(2) na obtain pre2 where p: "pre = a # pre2" "A @ R = pre2 @ SnapshotStatus repo sn r # post"
    by (cases pre) auto
  from Cons.IH [OF sA p(2)] p(1) show ?case by auto
qed

lemma poll_before_suffix:
  "status_polls B = [] \<Longrightarrow> W @ B = pre @ SnapshotStatus repo sn r # post \<Longrightarrow>
   \<exists>post'. post = post' @ B \<and> W = pre @ SnapshotStatus repo sn r # post'"
proof (induction W arbitrary: pre)
  case Nil
  then have "SnapshotStatus repo sn r \<in> set B" by simp
  with Nil.prems(1) show ?case by (auto dest: status_polls_member)
next
  case (Cons w W)
  show ?case
  proof (cases pre)
    case Nil
    with Cons.prems(2) show ?thesis by simp
  next
    case (Cons p pre2)
    with Cons.prems(2) have "W @ B = pre2 @ SnapshotStatus repo sn r # post" "p = w" by simp_all
    with Cons.IH [OF Cons.prems(1) this(1)] Cons show ?thesis by auto
  qed
qed

lemma poll_in_middle:
  assumes "A @ W @ B = pre @ SnapshotStatus repo sn r # post"
    and "status_polls A = []" "status_polls B = []"
  shows "\<exists>pre' post'. W = pre' @ SnapshotStatus repo sn r # post' \<and> pre = A @ pre' \<and> post = post' @ B"
proof -
  from poll_after_prefix [OF assms(2,1)] obtain pre' where
    p: "pre = A @ pre'" "W @ B = pre' @ SnapshotStatus repo sn r # post" by blast
  from poll_before_suffix [OF assms(3) p(2)] p(1) show ?thesis by blast
qed

lemma wait_events_polls:
  "\<forall>ev\<in>set evs. wait_event cfg sn ev \<Longrightarrow> SnapshotStatus repo sn' r \<in> set evs \<Longrightarrow>
   repo = repository_name cfg \<and> sn' = sn"
  by auto


lemma handlers_plain_exception:
  "backup_delete_handlers n (Exception m) s = (Next, print_line (MsgErrorProcessing n (Exception m)) s)"
  by (simp add: backup_delete_handlers_def isinstance_RequestError_def isinstance_Exception_def)

lemma backup_delete_index_shape:
  assumes run: "backup_delete_index env cfg now (n, d) s = (c, s')"
  shows "\<exists>A W B res. trace s' = trace s @ A @ W @ B \<and> status_polls A = [] \<and> status_polls B = [] \<and>
           deleted_names A = [] \<and> (\<forall>ev\<in>set W. wait_event cfg (snapshot_name_of n now) ev) \<and>
           poll_stops cfg n (snapshot_name_of n now) W res \<and>
           (\<forall>m. res = Inl (Exception m) \<longrightarrow>
                c = Next \<and> B = [Print (MsgErrorProcessing n (Exception m))])"
  using run
proof (cases rule: backup_delete_index_cases)
  case (create_raised e s1)
  let ?A = "[SnapshotCreate (repository_name cfg) (snapshot_name_of n now) n (Inl e)]"
  from backup_delete_handlers_events [OF create_raised(2)] call_trace [OF create_raised(1)]
  obtain B where "trace s' = trace s @ ?A @ [] @ B" "status_polls B = []" by auto
  moreover have "poll_stops cfg n (snapshot_name_of n now) [] (Inr 0)" by (simp add: poll_stops_def)
  ultimately show ?thesis by (intro exI [of _ ?A] exI [of _ "[]"] exI [of _ B] exI [of _ "Inr 0"]) simp
next
  case (wait_raised a s1 e s2)
  let ?A = "[SnapshotCreate (repository_name cfg) (snapshot_name_of n now) n (Inr a),
             Print (MsgSnapshotCreated n (snapshot_name_of n now))]"
  from wait_loop_events [OF wait_raised(2)] call_trace [OF wait_raised(1)] obtain W where
    w: "trace s2 = trace s @ ?A @ W" "\<forall>ev\<in>set W. wait_event cfg (snapshot_name_of n now) ev"
       "poll_stops cfg n (snapshot_name_of n now) W (Inl e)" by auto
  from backup_delete_handlers_events [OF wait_raised(3)] w(1)
  obtain B where b: "trace s' = trace s @ ?A @ W @ B" "status_polls B = []" by auto
  have "\<forall>m. e = Exception m \<longrightarrow> c = Next \<and> B = [Print (MsgErrorProcessing n (Exception m))]"
    using wait_raised(3) b(1) w(1) by (auto simp: handlers_plain_exception)
  with w(2,3) b show ?thesis
    by (intro exI [of _ ?A] exI [of _ W] exI [of _ B] exI [of _ "Inl e"]) simp
next
  case (timed_out a s1 retries s2)
  let ?A = "[SnapshotCreate (repository_name cfg) (snapshot_name_of n now) n (Inr a),
             Print (MsgSnapshotCreated n (snapshot_name_of n now))]"
  from wait_loop_events [OF timed_out(2)] call_trace [OF timed_out(1)] obtain W where
    w: "trace s2 = trace s @ ?A @ W" "\<forall>ev\<in>set W. wait_event cfg (snapshot_name_of n now) ev"
       "poll_stops cfg n (snapshot_name_of n now) W (Inr retries)" by auto
  from timed_out(5) w(1) have "trace s' = trace s @ ?A @ W @ [Print (MsgTimedOut n)]" by simp
  with w(2,3) show ?thesis
    by (intro exI [of _ ?A] exI [of _ W] exI [of _ "[Print (MsgTimedOut n)]"] exI [of _ "Inr retries"]) simp
next
  case (delete_raised a s1 retries s2 e s3)
  let ?A = "[SnapshotCreate (repository_name cfg) (snapshot_name_of n now) n (Inr a),
             Print (MsgSnapshotCreated n (snapshot_name_of n now))]"
  from wait_loop_events [OF delete_raised(2)] call_trace [OF delete_raised(1)] obtain W where
    w: "trace s2 = trace s @ ?A @ W" "\<forall>ev\<in>set W. wait_event cfg (snapshot_name_of n now) ev"
       "poll_stops cfg n (snapshot_name_of n now) W (Inr retries)" by auto
  from backup_delete_handlers_events [OF delete_raised(5)] call_trace [OF delete_raised(4)] w(1)
  obtain B where "trace s' = trace s @ ?A @ W @ B" "status_polls B = []" by auto
  with w(2,3) show ?thesis
    by (intro exI [of _ ?A] exI [of _ W] exI [of _ B] exI [of _ "Inr retries"]) simp
next
  case (disk_raised a s1 retries s2 b s3 e s4)
  let ?A = "[SnapshotCreate (repository_name cfg) (snapshot_name_of n now) n (Inr a),
             Print (MsgSnapshotCreated n (snapshot_name_of n now))]"
  from wait_loop_events [OF disk_raised(2)] call_trace [OF disk_raised(1)] obtain W where
    w: "trace s2 = trace s @ ?A @ W" "\<forall>ev\<in>set W. wait_event cfg (snapshot_name_of n now) ev"
       "poll_stops cfg n (snapshot_name_of n now) W (Inr retries)" by auto
  from backup_delete_handlers_events [OF disk_raised(6)] check_disk_space_events [OF disk_raised(5)]
    call_trace [OF disk_raised(4)] w(1)
  obtain B where "trace s' = trace s @ ?A @ W @ B" "status_polls B = []" by auto
  with w(2,3) show ?thesis
    by (intro exI [of _ ?A] exI [of _ W] exI [of _ B] exI [of _ "Inr retries"]) simp
next
  case (disk_exceeded a s1 retries s2 b s3 p s4)
  let ?A = "[SnapshotCreate (repository_name cfg) (snapshot_name_of n now) n (Inr a),
             Print (MsgSnapshotCreated n (snapshot_name_of n now))]"
  from wait_loop_events [OF disk_exceeded(2)] call_trace [OF disk_exceeded(1)] obtain W where
    w: "trace s2 = trace s @ ?A @ W" "\<forall>ev\<in>set W. wait_event cfg (snapshot_name_of n now) ev"
       "poll_stops cfg n (snapshot_name_of n now) W (Inr retries)" by auto
  from disk_exceeded(8) check_disk_space_events [OF disk_exceeded(5)]
    call_trace [OF disk_exceeded(4)] w(1)
  obtain B where "trace s' = trace s @ ?A @ W @ B" "status_polls B = []" by auto
  with w(2,3) show ?thesis
    by (intro exI [of _ ?A] exI [of _ W] exI [of _ B] exI [of _ "Inr retries"]) simp
next
  case (archived a s1 retries s2 b s3 p s4)
  let ?A = "[SnapshotCreate (repository_name cfg) (snapshot_name_of n now) n (Inr a),
             Print (MsgSnapshotCreated n (snapshot_name_of n now))]"
  from wait_loop_events [OF archived(2)] call_trace [OF archived(1)] obtain W where
    w: "trace s2 = trace s @ ?A @ W" "\<forall>ev\<in>set W. wait_event cfg (snapshot_name_of n now) ev"
       "poll_stops cfg n (snapshot_name_of n now) W (Inr retries)" by auto
  from archived(8) check_disk_space_events [OF archived(5)]
    call_trace [OF archived(4)] w(1)
  obtain B where "trace s' = trace s @ ?A @ W @ B" "status_polls B = []" by auto
  with w(2,3) show ?thesis
    by (intro exI [of _ ?A] exI [of _ W] exI [of _ B] exI [of _ "Inr retries"]) simp
qed

text \<open>
  C6. In the events of one iteration of the backup loop, a status poll that answers with
  state FAILED or PARTIAL is followed by one event only, the line "Error processing index
  ..." carrying the exception of lines 106-108: no further poll, no sleep. The iteration
  goes on to the next index, and it has made no \<open>indices.delete\<close> call.
\<close>

theorem failed_poll_ends_iteration:
  assumes "backup_delete_index env cfg current_date (index_name, creation_date) s = (c, s')"
    and "trace s' = trace s @ pre @ SnapshotStatus repo sn (Inr snapshot_status) # post"
    and "reports_failure snapshot_status"
  shows "c = Next \<and>
         (\<exists>st. snapshot_state snapshot_status = Inr st \<and>
               post = [Print (MsgErrorProcessing index_name (Exception (failed_message index_name st)))]) \<and>
         deleted_names (pre @ SnapshotStatus repo sn (Inr snapshot_status) # post) = []"
proof -
  let ?sn = "snapshot_name_of index_name current_date"
  from backup_delete_index_shape [OF assms(1)] obtain A W B res where
    sh: "trace s' = trace s @ A @ W @ B" "status_polls A = []" "status_polls B = []"
        "deleted_names A = []" "\<forall>ev\<in>set W. wait_event cfg ?sn ev" "poll_stops cfg index_name ?sn W res"
        "\<forall>m. res = Inl (Exception m) \<longrightarrow> c = Next \<and> B = [Print (MsgErrorProcessing index_name (Exception m))]"
    by blast
  from sh(1) assms(2) have "A @ W @ B = pre @ SnapshotStatus repo sn (Inr snapshot_status) # post" by simp
  from poll_in_middle [OF this sh(2,3)] obtain pre' post' where
    m: "W = pre' @ SnapshotStatus repo sn (Inr snapshot_status) # post'" "pre = A @ pre'" "post = post' @ B"
    by blast
  from m(1) sh(5) have "repo = repository_name cfg \<and> sn = ?sn" by auto
  with sh(6) m(1) assms(3) obtain st where
    st: "post' = []" "snapshot_state snapshot_status = Inr st"
        "res = Inl (Exception (failed_message index_name st))"
    unfolding poll_stops_def by blast
  from sh(7) st(3) have cb: "c = Next" "B = [Print (MsgErrorProcessing index_name (Exception (failed_message index_name st)))]"
    by simp_all
  have "deleted_names W = []" using wait_events_quiet [OF sh(5)] by simp
  with m sh(4) cb st show ?thesis by simp
qed


text \<open>
  PARTIAL at the first poll: the iteration is the snapshot request, its line, the poll
  and the error line.
\<close>

theorem failed_poll_ends_iteration_witness:
  "reports_failure (status_with ''PARTIAL'')
   \<and> trace (snd (backup_delete_index partial_cluster (settings 3) (midnight 2024 1 1)
                    (''logs-2023.01.01'', midnight 2023 1 1) start))
       = trace start
         @ [SnapshotCreate ''repo'' (snapshot_name_of ''logs-2023.01.01'' (midnight 2024 1 1))
              ''logs-2023.01.01'' (Inr ack),
            Print (MsgSnapshotCreated ''logs-2023.01.01''
              (snapshot_name_of ''logs-2023.01.01'' (midnight 2024 1 1)))]
         @ SnapshotStatus ''repo'' (snapshot_name_of ''logs-2023.01.01'' (midnight 2024 1 1))
             (Inr (status_with ''PARTIAL''))
         # [Print (MsgErrorProcessing ''logs-2023.01.01''
                (Exception (failed_message ''logs-2023.01.01'' (JStr ''PARTIAL''))))]
   \<and> fst (backup_delete_index partial_cluster (settings 3) (midnight 2024 1 1)
             (''logs-2023.01.01'', midnight 2023 1 1) start) = Next
   \<and> deleted_names (trace (snd (backup_delete_index partial_cluster (settings 3) (midnight 2024 1 1)
                                   (''logs-2023.01.01'', midnight 2023 1 1) start))) = []"
proof -
  let ?run = "backup_delete_index partial_cluster (settings 3) (midnight 2024 1 1)
                (''logs-2023.01.01'', midnight 2023 1 1) start"
  let ?sn = "snapshot_name_of ''logs-2023.01.01'' (midnight 2024 1 1)"
  let ?pre = "[SnapshotCreate ''repo'' ?sn ''logs-2023.01.01'' (Inr ack),
               Print (MsgSnapshotCreated ''logs-2023.01.01'' ?sn)]"
  let ?post = "[Print (MsgErrorProcessing ''logs-2023.01.01''
                  (Exception (failed_message ''logs-2023.01.01'' (JStr ''PARTIAL''))))]"
  have h1: "?run = (fst ?run, snd ?run)" by simp
  have h2: "trace (snd ?run)
            = trace start @ ?pre @ SnapshotStatus ''repo'' ?sn (Inr (status_with ''PARTIAL'')) # ?post"
    by code_simp
  have h3: "reports_failure (status_with ''PARTIAL'')" by code_simp
  show ?thesis
    using failed_poll_ends_iteration [OF h1 h2 h3] h2 h3 by (simp add: start_def)
qed

section \<open>The delete mode, and failures of one index\<close>

lemma delete_handlers_events:
  "delete_handlers n e s = (c, s') \<Longrightarrow>
   (c = Next \<and> isinstance_Exception e \<and>
      (s' = print_line (MsgFailedDelete n e) s \<or> s' = print_line (MsgErrorDeleting n e) s))
   \<or> (c = Raise e \<and> \<not> isinstance_Exception e \<and> s' = s)"
  by (auto simp: delete_handlers_def isinstance_RequestError_def isinstance_Exception_def
           split: if_splits)

lemma delete_index_events:
  assumes run: "delete_index env (n, d) s = (c, s')"
  shows "\<exists>evs. trace s' = trace s @ evs \<and> delete_iteration_ok n evs c"
proof -
  obtain r1 s1 where c1: "call (env_indices_delete env n) (IndicesDelete n) s = (r1, s1)"
    by (rule prod.exhaust)
  note t1 = call_trace [OF c1]
  show ?thesis
  proof (cases r1)
    case (Inl e)
    with run c1 have "delete_handlers n e s1 = (c, s')" by (simp add: delete_index_def)
    from delete_handlers_events [OF this] t1 Inl show ?thesis
      by (auto simp: delete_iteration_ok_def)
  next
    case (Inr a)
    with run c1 have "c = Next" "s' = print_line (MsgDeleted n) s1" by (simp_all add: delete_index_def)
    with t1 Inr show ?thesis by (auto simp: delete_iteration_ok_def)
  qed
qed

lemma delete_loop_events:
  "delete_loop env xs s = (c, s') \<Longrightarrow>
   \<exists>evs. trace s' = trace s @ evs \<and> delete_loop_ok (map fst xs) evs c"
proof (induction xs arbitrary: s)
  case Nil
  then show ?case by (simp add: delete_loop_ok_def)
next
  case (Cons item xs)
  obtain n d where item: "item = (n, d)" by (cases item)
  obtain c1 s1 where it: "delete_index env (n, d) s = (c1, s1)" by (rule prod.exhaust)
  from delete_index_events [OF it] obtain evs1 where
    e1: "trace s1 = trace s @ evs1" "delete_iteration_ok n evs1 c1" by blast
  have nr: "c1 \<noteq> Return" using it
    by (auto simp: delete_index_def delete_handlers_def split: prod.splits sum.splits if_splits)
  show ?case
  proof (cases "c1 = Next")
    case False
    with Cons.prems it item have "c = c1" "s' = s1" by (cases c1; simp)+
    with e1 False item nr show ?thesis
      by (auto simp: delete_loop_ok_def delete_iteration_ok_def)
  next
    case True
    with Cons.prems it item have "delete_loop env xs s1 = (c, s')" by simp
    from Cons.IH [OF this] obtain evs2 where
      e2: "trace s' = trace s1 @ evs2" "delete_loop_ok (map fst xs) evs2 c" by blast
    have "trace s' = trace s @ (evs1 @ evs2)" using e1(1) e2(1) by simp
    moreover have "delete_loop_ok (map fst (item # xs)) (evs1 @ evs2) c"
      using e1(2) e2(2) item unfolding delete_loop_ok_def delete_iteration_ok_def by auto
    ultimately show ?thesis by blast
  qed
qed

lemma delete_run:
  assumes run: "list_delete_old_indices env days_arg s = (res, s')"
  shows "\<exists>evs. trace s' = trace s @ evs \<and> (\<forall>e. res = Inl e \<longrightarrow> \<not> isinstance_Exception e) \<and>
          created_names evs = [] \<and>
          ((\<exists>e w1. env_get_alias env (world s) = (Inl e, w1)) \<and> deleted_names evs = [] \<or>
           (\<exists>indices w1 now w2 c.
              env_get_alias env (world s) = (Inr indices, w1) \<and> env_now env w1 = (now, w2) \<and>
              delete_loop_ok (map fst (old_indices_delete indices now days_arg)) evs c \<and>
              (res = Inr () \<longrightarrow> c = Next)))"
proof -
  obtain r1 s1 where c1: "call (env_get_alias env) GetAlias s = (r1, s1)" by (rule prod.exhaust)
  note t1 = call_trace [OF c1]
  show ?thesis
  proof (cases r1)
    case (Inl e)
    with run c1 have "outer_handlers e s1 = (res, s')"
      by (simp add: list_delete_old_indices_def delete_body_def)
    moreover from c1 Inl have "\<exists>w1. env_get_alias env (world s) = (Inl e, w1)"
      by (auto simp: call_eq)
    ultimately show ?thesis using outer_handlers_events [of e s1 res s'] t1 Inl by auto
  next
    case (Inr indices)
    from c1 Inr obtain w1 where g: "env_get_alias env (world s) = (Inr indices, w1)" "world s1 = w1"
      by (auto simp: call_eq)
    obtain now s2 where c2: "call (env_now env) Now s1 = (now, s2)" by (rule prod.exhaust)
    note t2 = call_trace [OF c2]
    from c2 g(2) obtain w2 where nw: "env_now env w1 = (now, w2)" by (auto simp: call_eq)
    let ?old = "old_indices_delete indices now days_arg"
    let ?s3 = "print_indices ?old (print_line (MsgOlderThan days_arg) s2)"
    let ?pre = "[GetAlias r1, Now now, Print (MsgOlderThan days_arg)]
                @ map (\<lambda>x. Print (MsgIndex (fst x))) ?old"
    have pre: "trace ?s3 = trace s @ ?pre" using t1 t2 by (simp add: trace_print_indices)
    have qpre: "quiet ?pre" using quiet_index_lines [of ?old] by (simp add: quiet_append) (simp add: quiet_def)
    obtain c s5 where c5: "delete_loop env ?old ?s3 = (c, s5)" by (rule prod.exhaust)
    from delete_loop_events [OF c5] obtain lp where
      lp: "trace s5 = trace ?s3 @ lp" "delete_loop_ok (map fst ?old) lp c" by blast
    have r: "(res, s') = (case c of Raise e \<Rightarrow> outer_handlers e s5 | _ \<Rightarrow> (Inr (), s5))"
      using run c1 Inr c2 c5
      by (simp add: list_delete_old_indices_def delete_body_def Let_def split: ctl.splits)
    have f: "s' = s5 \<and> (\<forall>e. res = Inl e \<longrightarrow> \<not> isinstance_Exception e) \<and> (res = Inr () \<longrightarrow> c = Next)"
    proof (cases c)
      case (Raise e)
      with lp(2) have "\<not> isinstance_Exception e" by (simp add: delete_loop_ok_def)
      with r Raise outer_handlers_events [of e s5 res s'] show ?thesis by auto
    next
      case Return
      with lp(2) show ?thesis by (simp add: delete_loop_ok_def)
    qed (use r in auto)
    have tr: "trace s' = trace s @ (?pre @ lp)" using f lp(1) pre by simp
    have "delete_loop_ok (map fst ?old) (?pre @ lp) c"
      using lp(2) qpre unfolding delete_loop_ok_def quiet_def by simp
    with tr f g(1) nw show ?thesis by (intro exI [of _ "?pre @ lp"]) (use qpre lp(2) in \<open>auto simp: quiet_def delete_loop_ok_def\<close>)
  qed
qed


lemma backup_delete_loop_first:
  assumes "backup_delete_loop env cfg now (B # rest) s = (c, s')"
  shows "\<exists>evs. trace s' = trace s @ evs \<and> prefix [fst B] (created_names evs)"
proof -
  obtain n d where B: "B = (n, d)" by (cases B)
  obtain c1 s1 where it: "backup_delete_index env cfg now (n, d) s = (c1, s1)" by (rule prod.exhaust)
  from backup_delete_index_events [OF it] obtain evs1 where
    e1: "trace s1 = trace s @ evs1" "created_names evs1 = [n]" by (auto simp: iteration_ok_def)
  show ?thesis
  proof (cases "c1 = Next")
    case False
    with assms it B have "s' = s1" by (cases c1; simp)+
    with e1 B show ?thesis by auto
  next
    case True
    with assms it B have "backup_delete_loop env cfg now rest s1 = (c, s')" by simp
    from backup_delete_loop_events [OF this] obtain evs2 where "trace s' = trace s1 @ evs2" by blast
    with e1 have "trace s' = trace s @ (evs1 @ evs2)" "created_names (evs1 @ evs2) = n # created_names evs2"
      by simp_all
    with B show ?thesis by (intro exI [of _ "evs1 @ evs2"]) simp
  qed
qed

lemma delete_loop_first:
  assumes "delete_loop env (B # rest) s = (c, s')"
  shows "\<exists>evs. trace s' = trace s @ evs \<and> prefix [fst B] (deleted_names evs)"
proof -
  obtain n d where B: "B = (n, d)" by (cases B)
  obtain c1 s1 where it: "delete_index env (n, d) s = (c1, s1)" by (rule prod.exhaust)
  from delete_index_events [OF it] obtain evs1 where
    e1: "trace s1 = trace s @ evs1" "deleted_names evs1 = [n]" by (auto simp: delete_iteration_ok_def)
  show ?thesis
  proof (cases "c1 = Next")
    case False
    with assms it B have "s' = s1" by (cases c1; simp)+
    with e1 B show ?thesis by auto
  next
    case True
    with assms it B have "delete_loop env rest s1 = (c, s')" by simp
    from delete_loop_events [OF this] obtain evs2 where "trace s' = trace s1 @ evs2" by blast
    with e1 have "trace s' = trace s @ (evs1 @ evs2)" "deleted_names (evs1 @ evs2) = n # deleted_names evs2"
      by simp_all
    with B show ?thesis by (intro exI [of _ "evs1 @ evs2"]) simp
  qed
qed

text \<open>
  C7. A failure on one index does not stop the batch, in either mode. If the events of
  the iteration for index A hold a failure of that index (the snapshot request or the
  delete request raised an \<open>Exception\<close>, a poll answered FAILED or PARTIAL, or the
  time-out line was printed), the iteration ends by going on to the next item: the loop over
  A, B and the rest continues as the loop over B and the rest, and the first call made
  after A is the one for B (\<open>snapshot.create\<close> in the backup mode, \<open>indices.delete\<close> in the
  delete mode).
\<close>

theorem failure_does_not_stop_batch:
  "(backup_delete_index env cfg current_date A s = (c, s1) \<longrightarrow> trace s1 = trace s @ evs \<longrightarrow>
      (\<exists>ev\<in>set evs. per_index_failure ev) \<longrightarrow>
        c = Next \<and>
        backup_delete_loop env cfg current_date (A # B # rest) s
          = backup_delete_loop env cfg current_date (B # rest) s1 \<and>
        (\<exists>more. trace (snd (backup_delete_loop env cfg current_date (A # B # rest) s)) = trace s1 @ more \<and>
                prefix [fst B] (created_names more)))
   \<and> (delete_index env A s = (c, s1) \<longrightarrow> trace s1 = trace s @ evs \<longrightarrow>
      (\<exists>ev\<in>set evs. per_index_failure ev) \<longrightarrow>
        c = Next \<and>
        delete_loop env (A # B # rest) s = delete_loop env (B # rest) s1 \<and>
        (\<exists>more. trace (snd (delete_loop env (A # B # rest) s)) = trace s1 @ more \<and>
                prefix [fst B] (deleted_names more)))"
proof (intro conjI impI)
  assume run: "backup_delete_index env cfg current_date A s = (c, s1)"
    and tr: "trace s1 = trace s @ evs" and f: "\<exists>ev\<in>set evs. per_index_failure ev"
  obtain n d where A: "A = (n, d)" by (cases A)
  from backup_delete_index_events [OF run [unfolded A]] tr f show c: "c = Next"
    by (auto simp: iteration_ok_def)
  with run show eq: "backup_delete_loop env cfg current_date (A # B # rest) s
          = backup_delete_loop env cfg current_date (B # rest) s1" by simp
  obtain c' s' where l: "backup_delete_loop env cfg current_date (B # rest) s1 = (c', s')"
    by (rule prod.exhaust)
  from backup_delete_loop_first [OF l] eq l
  show "\<exists>more. trace (snd (backup_delete_loop env cfg current_date (A # B # rest) s)) = trace s1 @ more \<and>
                prefix [fst B] (created_names more)" by simp
next
  assume run: "delete_index env A s = (c, s1)"
    and tr: "trace s1 = trace s @ evs" and f: "\<exists>ev\<in>set evs. per_index_failure ev"
  obtain n d where A: "A = (n, d)" by (cases A)
  from delete_index_events [OF run [unfolded A]] tr f show c: "c = Next"
    by (auto simp: delete_iteration_ok_def)
  with run show eq: "delete_loop env (A # B # rest) s = delete_loop env (B # rest) s1" by simp
  obtain c' s' where l: "delete_loop env (B # rest) s1 = (c', s')" by (rule prod.exhaust)
  from delete_loop_first [OF l] eq l
  show "\<exists>more. trace (snd (delete_loop env (A # B # rest) s)) = trace s1 @ more \<and>
                prefix [fst B] (deleted_names more)" by simp
qed


text \<open>
  Every request is rejected: the first index fails, and the request for the second is made.
\<close>

theorem failure_does_not_stop_batch_witness:
  "(\<exists>ev\<in>set (trace (snd (backup_delete_index rejecting_cluster (settings 3) (midnight 2024 1 1)
                              (''logs-2023.01.01'', midnight 2023 1 1) start))). per_index_failure ev)
   \<and> (\<exists>ev\<in>set (trace (snd (delete_index rejecting_cluster
                              (''logs-2023.01.01'', midnight 2023 1 1) start))). per_index_failure ev)
   \<and> ''logs-2023.06.01'' \<in> set (created_names (trace (snd (backup_delete_loop rejecting_cluster (settings 3)
         (midnight 2024 1 1)
         [(''logs-2023.01.01'', midnight 2023 1 1), (''logs-2023.06.01'', midnight 2023 6 1)] start))))
   \<and> ''logs-2023.06.01'' \<in> set (deleted_names (trace (snd (delete_loop rejecting_cluster
         [(''logs-2023.01.01'', midnight 2023 1 1), (''logs-2023.06.01'', midnight 2023 6 1)] start))))"
proof -
  let ?A = "(''logs-2023.01.01'', midnight 2023 1 1)"
  let ?B = "(''logs-2023.06.01'', midnight 2023 6 1)"
  let ?now = "midnight 2024 1 1"
  let ?b = "backup_delete_index rejecting_cluster (settings 3) ?now ?A start"
  let ?d = "delete_index rejecting_cluster ?A start"
  have b1: "?b = (fst ?b, snd ?b)" and d1: "?d = (fst ?d, snd ?d)" by simp_all
  have b2: "trace (snd ?b) = trace start @ trace (snd ?b)"
    and d2: "trace (snd ?d) = trace start @ trace (snd ?d)" by (simp_all add: start_def)
  have b3: "\<exists>ev\<in>set (trace (snd ?b)). per_index_failure ev" by code_simp
  have d3: "\<exists>ev\<in>set (trace (snd ?d)). per_index_failure ev" by code_simp
  note t = failure_does_not_stop_batch [of rejecting_cluster "settings 3" ?now ?A start
             "fst ?b" "snd ?b" "trace (snd ?b)" ?B "[]"]
  note u = failure_does_not_stop_batch [of rejecting_cluster "settings 3" ?now ?A start
             "fst ?d" "snd ?d" "trace (snd ?d)" ?B "[]"]
  from t b1 b2 b3 obtain more where
    "trace (snd (backup_delete_loop rejecting_cluster (settings 3) ?now [?A, ?B] start)) = trace (snd ?b) @ more"
    "prefix [fst ?B] (created_names more)" by blast
  then have cb: "''logs-2023.06.01'' \<in> set (created_names (trace (snd (backup_delete_loop rejecting_cluster
                   (settings 3) ?now [?A, ?B] start))))"
    by (auto simp: prefix_def)
  from u d1 d2 d3 obtain more where
    "trace (snd (delete_loop rejecting_cluster [?A, ?B] start)) = trace (snd ?d) @ more"
    "prefix [fst ?B] (deleted_names more)" by blast
  then have db: "''logs-2023.06.01'' \<in> set (deleted_names (trace (snd (delete_loop rejecting_cluster
                   [?A, ?B] start))))"
    by (auto simp: prefix_def)
  from b3 d3 cb db show ?thesis by blast
qed

section \<open>Names without a date\<close>

lemma sorted_nth_order:
  assumes "sorted (map f xs)" "i < length xs" "j < length xs" "f (xs ! i) < f (xs ! j)"
  shows "i < j"
proof (rule ccontr)
  assume "\<not> i < j"
  then have "j \<le> i" by simp
  with assms(1,2) have "map f xs ! j \<le> map f xs ! i" by (simp add: sorted_iff_nth_mono)
  with assms(2-4) show False by simp
qed

lemma none_not_old_backup_delete:
  "strptime (rsplit_last n) = None \<Longrightarrow> n \<notin> fst ` set (old_indices_backup_delete indices now thr)"
  by (auto simp: set_old_indices_backup_delete)

lemma none_not_old_delete:
  "strptime (rsplit_last n) = None \<Longrightarrow> n \<notin> fst ` set (old_indices_delete indices now thr)"
  by (auto simp: set_old_indices_delete)

lemma map_filter_append: "List.map_filter f (xs @ ys) = List.map_filter f xs @ List.map_filter f ys"
  by (simp add: List.map_filter_def)

text \<open>
  C8. An index whose last hyphen-separated segment \<open>strptime\<close> rejects is left out: its
  name is not in the list of old indices of either mode, the list is the one computed
  without that entry (the classification is total, nothing is raised), and in a run of
  either mode no \<open>snapshot.create\<close> and no \<open>indices.delete\<close> call names it.
\<close>

theorem unparsed_index_is_skipped:
  assumes "strptime (rsplit_last index_name) = None"
  shows "index_name \<notin> fst ` set (old_indices_backup_delete indices current_date threshold)
       \<and> index_name \<notin> fst ` set (old_indices_delete indices current_date threshold)
       \<and> old_indices_backup_delete (before @ (index_name, index_info) # after) current_date threshold
           = old_indices_backup_delete (before @ after) current_date threshold
       \<and> old_indices_delete (before @ (index_name, index_info) # after) current_date threshold
           = old_indices_delete (before @ after) current_date threshold
       \<and> (list_backup_delete_old_indices env cfg s = (res, s') \<longrightarrow> trace s' = trace s @ evs \<longrightarrow>
            index_name \<notin> set (created_names evs) \<and> index_name \<notin> set (deleted_names evs))
       \<and> (list_delete_old_indices env days_arg s = (res, s') \<longrightarrow> trace s' = trace s @ evs \<longrightarrow>
            index_name \<notin> set (created_names evs) \<and> index_name \<notin> set (deleted_names evs))"
proof (intro conjI impI)
  show "index_name \<notin> fst ` set (old_indices_backup_delete indices current_date threshold)"
    by (rule none_not_old_backup_delete [OF assms])
  show "index_name \<notin> fst ` set (old_indices_delete indices current_date threshold)"
    by (rule none_not_old_delete [OF assms])
  have st: "stale_item current_date threshold (index_name, index_info) = None"
    using assms by (simp add: stale_item_def)
  show "old_indices_backup_delete (before @ (index_name, index_info) # after) current_date threshold
           = old_indices_backup_delete (before @ after) current_date threshold"
    by (simp add: old_indices_backup_delete_def collect_old_backup_delete_eq map_filter_append st)
  show "old_indices_delete (before @ (index_name, index_info) # after) current_date threshold
           = old_indices_delete (before @ after) current_date threshold"
    by (simp add: old_indices_delete_def collect_old_delete_eq map_filter_append st)
next
  assume run: "list_backup_delete_old_indices env cfg s = (res, s')" and tr: "trace s' = trace s @ evs"
  from backup_delete_run [OF run] tr have
    "quiet evs \<or> (\<exists>indices now pre lp c. evs = pre @ lp \<and> quiet pre \<and>
        loop_ok (map fst (old_indices_backup_delete indices now (redundancy_period_days cfg))) lp c)"
    by fastforce
  then have "\<exists>indices now. set (created_names evs) \<union> set (deleted_names evs)
               \<subseteq> fst ` set (old_indices_backup_delete indices now (redundancy_period_days cfg))"
  proof
    assume "quiet evs" then show ?thesis by (simp add: quiet_def)
  next
    assume "\<exists>indices now pre lp c. evs = pre @ lp \<and> quiet pre \<and>
        loop_ok (map fst (old_indices_backup_delete indices now (redundancy_period_days cfg))) lp c"
    then obtain indices now pre lp c where e: "evs = pre @ lp" "quiet pre"
      "loop_ok (map fst (old_indices_backup_delete indices now (redundancy_period_days cfg))) lp c"
      by blast
    from e(3) have "prefix (created_names lp)
                      (map fst (old_indices_backup_delete indices now (redundancy_period_days cfg)))"
      and d: "set (deleted_names lp)
                \<subseteq> set (map fst (old_indices_backup_delete indices now (redundancy_period_days cfg)))"
      by (simp_all add: loop_ok_def)
    from set_mono_prefix [OF this(1)] d have "set (created_names lp) \<union> set (deleted_names lp)
               \<subseteq> fst ` set (old_indices_backup_delete indices now (redundancy_period_days cfg))"
      by simp
    with e(1,2) show ?thesis by (auto simp: quiet_def)
  qed
  with none_not_old_backup_delete [OF assms]
  show "index_name \<notin> set (created_names evs)" "index_name \<notin> set (deleted_names evs)" by blast+
next
  assume run: "list_delete_old_indices env days_arg s = (res, s')" and tr: "trace s' = trace s @ evs"
  from delete_run [OF run] tr have
    c: "created_names evs = []" and
    dl: "deleted_names evs = [] \<or> (\<exists>indices now c.
        delete_loop_ok (map fst (old_indices_delete indices now days_arg)) evs c)"
    by fastforce+
  from dl have "\<exists>indices now. set (deleted_names evs) \<subseteq> fst ` set (old_indices_delete indices now days_arg)"
  proof
    assume "deleted_names evs = []" then show ?thesis by simp
  next
    assume "\<exists>indices now c. delete_loop_ok (map fst (old_indices_delete indices now days_arg)) evs c"
    then obtain indices now where
      "prefix (deleted_names evs) (map fst (old_indices_delete indices now days_arg))"
      by (auto simp: delete_loop_ok_def)
    from set_mono_prefix [OF this] show ?thesis by auto
  qed
  then obtain indices now where
    "set (deleted_names evs) \<subseteq> fst ` set (old_indices_delete indices now days_arg)" by blast
  with none_not_old_delete [OF assms, of indices now days_arg] c
  show "index_name \<notin> set (created_names evs)" "index_name \<notin> set (deleted_names evs)" by auto
qed


text \<open>
  The listing of the scenario holds \<open>metrics-bad-name\<close>; both runs return normally and
  never name it.
\<close>

theorem unparsed_index_is_skipped_witness:
  "strptime (rsplit_last ''metrics-bad-name'') = None
   \<and> (''metrics-bad-name'', JNull) \<in> set logs_listing
   \<and> ''metrics-bad-name'' \<notin> fst ` set (old_indices_backup_delete logs_listing (midnight 2024 1 1) 90)
   \<and> ''metrics-bad-name'' \<notin> fst ` set (old_indices_delete logs_listing (midnight 2024 1 1) 90)
   \<and> fst (list_backup_delete_old_indices healthy_cluster (settings 3) start) = Inr ()
   \<and> fst (list_delete_old_indices healthy_cluster 90 start) = Inr ()
   \<and> ''metrics-bad-name''
        \<notin> set (created_names (trace (snd (list_backup_delete_old_indices healthy_cluster (settings 3) start))))
   \<and> ''metrics-bad-name''
        \<notin> set (deleted_names (trace (snd (list_backup_delete_old_indices healthy_cluster (settings 3) start))))
   \<and> ''metrics-bad-name''
        \<notin> set (deleted_names (trace (snd (list_delete_old_indices healthy_cluster 90 start))))"
proof -
  let ?b = "list_backup_delete_old_indices healthy_cluster (settings 3) start"
  let ?d = "list_delete_old_indices healthy_cluster 90 start"
  have h: "strptime (rsplit_last ''metrics-bad-name'') = None" by code_simp
  have m: "(''metrics-bad-name'', JNull) \<in> set logs_listing" by (simp add: logs_listing_def)
  have b1: "?b = (fst ?b, snd ?b)" and d1: "?d = (fst ?d, snd ?d)" by simp_all
  have b2: "trace (snd ?b) = trace start @ trace (snd ?b)"
    and d2: "trace (snd ?d) = trace start @ trace (snd ?d)" by (simp_all add: start_def)
  have okb: "fst ?b = Inr ()" and okd: "fst ?d = Inr ()" by code_simp+
  note t = unparsed_index_is_skipped [OF h, of logs_listing "midnight 2024 1 1" 90 "[]" JNull "[]"
             healthy_cluster "settings 3" start "fst ?b" "snd ?b" "trace (snd ?b)" 90]
  note u = unparsed_index_is_skipped [OF h, of logs_listing "midnight 2024 1 1" 90 "[]" JNull "[]"
             healthy_cluster "settings 3" start "fst ?d" "snd ?d" "trace (snd ?d)" 90]
  from t b1 b2 u d1 d2 h m okb okd show ?thesis by blast
qed

text \<open>The parser is the library's: it also takes a month or a day of one digit, so an
  index named like this one is classified.\<close>

lemma strptime_takes_one_digit: "strptime (rsplit_last ''logs-2023.1.5'') = Some (midnight 2023 1 5)"
  by code_simp

section \<open>What reaches the caller\<close>





section \<open>A date token the parser takes and the format does not\<close>

text \<open>
  C8 as worded does not hold: the segment \<open>2023.1.5\<close> is not a date token of four, two
  and two digits, yet \<open>strptime\<close> parses it, so the index \<open>release-2023.1.5\<close> is in the
  list of old indices of both modes, is snapshotted and deleted by the backup mode and
  deleted by the delete mode.
\<close>

theorem unpadded_date_is_classified:
  "\<not> spec_date_token (rsplit_last ''release-2023.1.5'')
   \<and> strptime (rsplit_last ''release-2023.1.5'') = Some (midnight 2023 1 5)
   \<and> map fst (old_indices_backup_delete unpadded_listing (midnight 2024 1 1) 90) = [''release-2023.1.5'']
   \<and> map fst (old_indices_delete unpadded_listing (midnight 2024 1 1) 90) = [''release-2023.1.5'']
   \<and> created_names (trace (snd (list_backup_delete_old_indices unpadded_cluster (settings 3) start)))
       = [''release-2023.1.5'']
   \<and> deleted_names (trace (snd (list_backup_delete_old_indices unpadded_cluster (settings 3) start)))
       = [''release-2023.1.5'']
   \<and> deleted_names (trace (snd (list_delete_old_indices unpadded_cluster 90 start)))
       = [''release-2023.1.5'']"
proof -
  have "\<not> spec_date_token (rsplit_last ''release-2023.1.5'')" by code_simp
  moreover have "strptime (rsplit_last ''release-2023.1.5'') = Some (midnight 2023 1 5)" by code_simp
  moreover have "map fst (old_indices_backup_delete unpadded_listing (midnight 2024 1 1) 90)
                 = [''release-2023.1.5'']" by code_simp
  moreover have "map fst (old_indices_delete unpadded_listing (midnight 2024 1 1) 90)
                 = [''release-2023.1.5'']" by code_simp
  moreover have "created_names (trace (snd (list_backup_delete_old_indices unpadded_cluster (settings 3) start)))
                 = [''release-2023.1.5'']" by code_simp
  moreover have "deleted_names (trace (snd (list_backup_delete_old_indices unpadded_cluster (settings 3) start)))
                 = [''release-2023.1.5'']" by code_simp
  moreover have "deleted_names (trace (snd (list_delete_old_indices unpadded_cluster 90 start)))
                 = [''release-2023.1.5'']" by code_simp
  ultimately show ?thesis by blast
qed

section \<open>The order of processing\<close>

lemma backup_delete_handlers_not_Return: "backup_delete_handlers n e s = (c, s') \<Longrightarrow> c \<noteq> Return"
  by (auto simp: backup_delete_handlers_def split: if_splits)

lemma backup_delete_index_return:
  assumes "backup_delete_index env cfg now (n, d) s = (Return, s')"
  shows "\<exists>evs. trace s' = trace s @ evs \<and> (\<exists>ev\<in>set evs. stopped_early ev)"
proof -
  from backup_delete_index_events [OF assms] obtain evs where e: "trace s' = trace s @ evs" by blast
  from assms have "s' = print_line (MsgDiskAfter (disk_usage_threshold cfg) n)
                          \<lparr>world = world s', trace = butlast (trace s')\<rparr>
                   \<and> trace s' \<noteq> [] \<and> last (trace s') = Print (MsgDiskAfter (disk_usage_threshold cfg) n)"
  proof (cases rule: backup_delete_index_cases)
    case (disk_exceeded a s1 retries s2 b s3 p s4)
    then show ?thesis by (simp add: print_line_def)
  qed (auto dest: backup_delete_handlers_not_Return)
  then have l: "trace s' \<noteq> []" "last (trace s') = Print (MsgDiskAfter (disk_usage_threshold cfg) n)"
    by simp_all
  have "evs \<noteq> []"
  proof
    assume "evs = []"
    with e have "trace s' = trace s" by simp
    moreover from assms have "trace s' \<noteq> trace s"
      using backup_delete_index_events [OF assms] by (auto simp: iteration_ok_def)
    ultimately show False by simp
  qed
  with e l have "last evs = Print (MsgDiskAfter (disk_usage_threshold cfg) n)" by simp
  with \<open>evs \<noteq> []\<close> have "Print (MsgDiskAfter (disk_usage_threshold cfg) n) \<in> set evs"
    by (metis last_in_set)
  moreover have "stopped_early (Print (MsgDiskAfter (disk_usage_threshold cfg) n))" by simp
  ultimately have "\<exists>ev\<in>set evs. stopped_early ev" by blast
  with e show ?thesis by blast
qed

lemma backup_delete_loop_return:
  "backup_delete_loop env cfg now xs s = (Return, s') \<Longrightarrow>
   \<exists>evs. trace s' = trace s @ evs \<and> (\<exists>ev\<in>set evs. stopped_early ev)"
proof (induction xs arbitrary: s)
  case Nil
  then show ?case by simp
next
  case (Cons item xs)
  obtain n d where item: "item = (n, d)" by (cases item)
  obtain c1 s1 where it: "backup_delete_index env cfg now (n, d) s = (c1, s1)" by (rule prod.exhaust)
  from backup_delete_index_events [OF it] obtain evs1 where e1: "trace s1 = trace s @ evs1" by blast
  show ?case
  proof (cases "c1 = Next")
    case False
    with Cons.prems it item have "c1 = Return" "s' = s1" by (cases c1; simp)+
    with it backup_delete_index_return [of env cfg now n d s s1] show ?thesis by simp
  next
    case True
    with Cons.prems it item have "backup_delete_loop env cfg now xs s1 = (Return, s')" by simp
    from Cons.IH [OF this] obtain evs2 where
      e2: "trace s' = trace s1 @ evs2" "\<exists>ev\<in>set evs2. stopped_early ev" by blast
    with e1 show ?thesis by (intro exI [of _ "evs1 @ evs2"]) auto
  qed
qed


lemma backup_delete_run_complete:
  assumes run: "list_backup_delete_old_indices env cfg s = (res, s')"
    and tr: "trace s' = trace s @ evs"
    and g: "env_get_alias env (world s) = (Inr indices, w1)"
    and nw: "env_now env w1 = (now, w2)"
    and ok: "res = Inr ()"
    and ns: "\<forall>ev\<in>set evs. \<not> stopped_early ev"
  shows "created_names evs = map fst (old_indices_backup_delete indices now (redundancy_period_days cfg))"
proof -
  let ?old = "old_indices_backup_delete indices now (redundancy_period_days cfg)"
  let ?s1 = "\<lparr>world = w1, trace = trace s @ [GetAlias (Inr indices)]\<rparr>"
  let ?s2 = "\<lparr>world = w2, trace = trace s @ [GetAlias (Inr indices), Now now]\<rparr>"
  have c1: "call (env_get_alias env) GetAlias s = (Inr indices, ?s1)" using g by (simp add: call_def)
  have c2: "call (env_now env) Now ?s1 = (now, ?s2)" using nw by (simp add: call_def)
  let ?s3 = "print_indices ?old (print_line (MsgOlderThan (redundancy_period_days cfg)) ?s2)"
  obtain r4 s4 where c4: "check_disk_space env ''/'' ?s3 = (r4, s4)" by (rule prod.exhaust)
  from check_disk_space_events [OF c4] obtain rd where t4: "trace s4 = trace ?s3 @ [DiskUsage ''/'' rd]"
    by blast
  let ?pre = "[GetAlias (Inr indices), Now now, Print (MsgOlderThan (redundancy_period_days cfg))]
              @ map (\<lambda>x. Print (MsgIndex (fst x))) ?old @ [DiskUsage ''/'' rd]"
  have pre: "trace s4 = trace s @ ?pre" using t4 by (simp add: trace_print_indices)
  have qpre: "quiet ?pre" using quiet_index_lines [of ?old] by (simp add: quiet_append) (simp add: quiet_def)
  show ?thesis
  proof (cases r4)
    case (Inl e)
    with run c1 c2 c4 have "outer_handlers e s4 = (res, s')"
      by (simp add: list_backup_delete_old_indices_def backup_delete_body_def Let_def)
    from outer_handlers_events [OF this] ok obtain m where
      m: "s' = print_line m s4" "stopped_early (Print m)" by auto
    with pre tr have "evs = ?pre @ [Print m]" by simp
    then have "Print m \<in> set evs" by simp
    with ns m(2) show ?thesis by blast
  next
    case p: (Inr p)
    show ?thesis
    proof (cases "p > real_of_int (disk_usage_threshold cfg)")
      case True
      with run c1 c2 c4 p have "s' = print_line (MsgDiskBefore (disk_usage_threshold cfg)) s4"
        by (simp add: list_backup_delete_old_indices_def backup_delete_body_def Let_def)
      with pre tr have "evs = ?pre @ [Print (MsgDiskBefore (disk_usage_threshold cfg))]" by simp
      then have "Print (MsgDiskBefore (disk_usage_threshold cfg)) \<in> set evs" by simp
      moreover have "stopped_early (Print (MsgDiskBefore (disk_usage_threshold cfg)))" by simp
      ultimately show ?thesis using ns by blast
    next
      case False
      obtain c s5 where c5: "backup_delete_loop env cfg now ?old s4 = (c, s5)" by (rule prod.exhaust)
      from backup_delete_loop_events [OF c5] obtain lp where
        lp: "trace s5 = trace s4 @ lp" "loop_ok (map fst ?old) lp c" by blast
      have r: "(res, s') = (case c of Raise e \<Rightarrow> outer_handlers e s5 | _ \<Rightarrow> (Inr (), s5))"
        using run c1 c2 c4 p False c5
        by (simp add: list_backup_delete_old_indices_def backup_delete_body_def Let_def split: ctl.splits)
      show ?thesis
      proof (cases c)
        case Next
        with r have "s' = s5" by simp
        with lp(1) pre tr have "evs = ?pre @ lp" by simp
        moreover from lp(2) Next have "created_names lp = map fst ?old" by (simp add: loop_ok_def)
        ultimately show ?thesis using qpre by (simp add: quiet_def)
      next
        case Return
        with r have s: "s' = s5" by simp
        from backup_delete_loop_return [OF c5 [unfolded Return]] obtain evs2 where
          e2: "trace s5 = trace s4 @ evs2" "\<exists>ev\<in>set evs2. stopped_early ev" by blast
        from e2(1) s pre tr have "evs = ?pre @ evs2" by simp
        with e2(2) ns show ?thesis by auto
      next
        case (Raise e)
        with lp(2) have "\<not> isinstance_Exception e" by (simp add: loop_ok_def)
        with r Raise outer_handlers_events [of e s5 res s'] have "res = Inl e" by auto
        with ok show ?thesis by simp
      qed
    qed
  qed
qed


text \<open>
  C5. The list of old indices is in ascending order of creation date: an entry whose
  creation date is earlier than another's stands before it, in both modes. Both functions
  walk that list in order: in a run, the index names of the \<open>snapshot.create\<close> calls (backup
  mode) and of the \<open>indices.delete\<close> calls (delete mode) are a prefix of the names of the
  list. They are the whole list, in that order, when the delete mode returns normally,
  and when the backup mode returns normally without having printed a disk warning or a
  line of its outer handlers.
\<close>

theorem old_indices_oldest_first:
  assumes "env_get_alias env (world s) = (Inr indices, w1)"
    and "env_now env w1 = (current_date, w2)"
    and "list_backup_delete_old_indices env cfg s = (res, s')"
    and "trace s' = trace s @ evs"
    and "list_delete_old_indices env days_arg s = (res_d, s_d)"
    and "trace s_d = trace s @ evs_d"
  shows "(\<forall>i j. i < length (old_indices_backup_delete indices current_date (redundancy_period_days cfg)) \<and>
                j < length (old_indices_backup_delete indices current_date (redundancy_period_days cfg)) \<and>
                dt_key (snd (old_indices_backup_delete indices current_date (redundancy_period_days cfg) ! i))
                  < dt_key (snd (old_indices_backup_delete indices current_date (redundancy_period_days cfg) ! j))
                \<longrightarrow> i < j)
       \<and> (\<forall>i j. i < length (old_indices_delete indices current_date days_arg) \<and>
                j < length (old_indices_delete indices current_date days_arg) \<and>
                dt_key (snd (old_indices_delete indices current_date days_arg ! i))
                  < dt_key (snd (old_indices_delete indices current_date days_arg ! j))
                \<longrightarrow> i < j)
       \<and> prefix (created_names evs)
            (map fst (old_indices_backup_delete indices current_date (redundancy_period_days cfg)))
       \<and> prefix (deleted_names evs_d) (map fst (old_indices_delete indices current_date days_arg))
       \<and> (res_d = Inr () \<longrightarrow>
            deleted_names evs_d = map fst (old_indices_delete indices current_date days_arg))
       \<and> (res = Inr () \<longrightarrow> (\<forall>ev\<in>set evs. \<not> stopped_early ev) \<longrightarrow>
            created_names evs
              = map fst (old_indices_backup_delete indices current_date (redundancy_period_days cfg)))"
proof -
  let ?b = "old_indices_backup_delete indices current_date (redundancy_period_days cfg)"
  let ?d = "old_indices_delete indices current_date days_arg"
  have sb: "sorted (map (\<lambda>x. dt_key (snd x)) ?b)" and sd: "sorted (map (\<lambda>x. dt_key (snd x)) ?d)"
    by (simp_all add: old_indices_backup_delete_def old_indices_delete_def)
  have pb: "\<forall>i j. i < length ?b \<and> j < length ?b \<and> dt_key (snd (?b ! i)) < dt_key (snd (?b ! j)) \<longrightarrow> i < j"
    using sorted_nth_order [OF sb] by blast
  have pd: "\<forall>i j. i < length ?d \<and> j < length ?d \<and> dt_key (snd (?d ! i)) < dt_key (snd (?d ! j)) \<longrightarrow> i < j"
    using sorted_nth_order [OF sd] by blast
  from backup_delete_run [OF assms(3)] assms(4) have
    "quiet evs \<or> (\<exists>indices' w1' now' w2' pre lp c.
        env_get_alias env (world s) = (Inr indices', w1') \<and> env_now env w1' = (now', w2') \<and>
        evs = pre @ lp \<and> quiet pre \<and>
        loop_ok (map fst (old_indices_backup_delete indices' now' (redundancy_period_days cfg))) lp c)"
    by fastforce
  then have cb: "prefix (created_names evs) (map fst ?b)"
  proof
    assume "quiet evs" then show ?thesis by (simp add: quiet_def)
  next
    assume "\<exists>indices' w1' now' w2' pre lp c.
        env_get_alias env (world s) = (Inr indices', w1') \<and> env_now env w1' = (now', w2') \<and>
        evs = pre @ lp \<and> quiet pre \<and>
        loop_ok (map fst (old_indices_backup_delete indices' now' (redundancy_period_days cfg))) lp c"
    then obtain pre lp c where "evs = pre @ lp" "quiet pre" "loop_ok (map fst ?b) lp c"
      using assms(1,2) by auto
    then show ?thesis by (simp add: quiet_def loop_ok_def)
  qed
  from delete_run [OF assms(5)] assms(6) assms(1) have
    "\<exists>indices' w1' now' w2' c.
          env_get_alias env (world s) = (Inr indices', w1') \<and> env_now env w1' = (now', w2') \<and>
          delete_loop_ok (map fst (old_indices_delete indices' now' days_arg)) evs_d c \<and>
          (res_d = Inr () \<longrightarrow> c = Next)"
    by fastforce
  then have "\<exists>c. delete_loop_ok (map fst ?d) evs_d c \<and> (res_d = Inr () \<longrightarrow> c = Next)"
    using assms(1,2) by auto
  then have db: "prefix (deleted_names evs_d) (map fst ?d)"
    and dn: "res_d = Inr () \<longrightarrow> deleted_names evs_d = map fst ?d"
    by (auto simp: delete_loop_ok_def)
  have ce: "res = Inr () \<longrightarrow> (\<forall>ev\<in>set evs. \<not> stopped_early ev) \<longrightarrow> created_names evs = map fst ?b"
    using backup_delete_run_complete [OF assms(3,4,1,2)] by blast
  from pb pd cb db dn ce show ?thesis by blast
qed

text \<open>
  The listing has the index of June before the index of January; both runs process
  January first, then June, and nothing else.
\<close>

theorem old_indices_oldest_first_witness:
  "env_get_alias healthy_cluster (world start) = (Inr logs_listing, 0)
   \<and> env_now healthy_cluster 0 = (midnight 2024 1 1, 0)
   \<and> redundancy_period_days (settings 3) = 90
   \<and> map fst logs_listing = [''logs-2023.06.01'', ''metrics-bad-name'', ''logs-2023.01.01'']
   \<and> dt_key (snd (old_indices_backup_delete logs_listing (midnight 2024 1 1) 90 ! 0))
       < dt_key (snd (old_indices_backup_delete logs_listing (midnight 2024 1 1) 90 ! 1))
   \<and> map fst (old_indices_backup_delete logs_listing (midnight 2024 1 1) 90)
       = [''logs-2023.01.01'', ''logs-2023.06.01'']
   \<and> fst (list_delete_old_indices healthy_cluster 90 start) = Inr ()
   \<and> fst (list_backup_delete_old_indices healthy_cluster (settings 3) start) = Inr ()
   \<and> filter stopped_early
        (trace (snd (list_backup_delete_old_indices healthy_cluster (settings 3) start))) = []
   \<and> created_names (trace (snd (list_backup_delete_old_indices healthy_cluster (settings 3) start)))
       = [''logs-2023.01.01'', ''logs-2023.06.01'']
   \<and> deleted_names (trace (snd (list_delete_old_indices healthy_cluster 90 start)))
       = [''logs-2023.01.01'', ''logs-2023.06.01'']"
proof -
  let ?b = "list_backup_delete_old_indices healthy_cluster (settings 3) start"
  let ?d = "list_delete_old_indices healthy_cluster 90 start"
  have h1: "env_get_alias healthy_cluster (world start) = (Inr logs_listing, 0)"
    by (simp add: healthy_cluster_def scenario_def start_def)
  have h2: "env_now healthy_cluster 0 = (midnight 2024 1 1, 0)"
    by (simp add: healthy_cluster_def scenario_def)
  have h3: "?b = (fst ?b, snd ?b)" and h5: "?d = (fst ?d, snd ?d)" by simp_all
  have h4: "trace (snd ?b) = trace start @ trace (snd ?b)"
    and h6: "trace (snd ?d) = trace start @ trace (snd ?d)" by (simp_all add: start_def)
  have r: "redundancy_period_days (settings 3) = 90" by (simp add: settings_def)
  have l: "map fst logs_listing = [''logs-2023.06.01'', ''metrics-bad-name'', ''logs-2023.01.01'']"
    by (simp add: logs_listing_def)
  have k: "dt_key (snd (old_indices_backup_delete logs_listing (midnight 2024 1 1) 90 ! 0))
           < dt_key (snd (old_indices_backup_delete logs_listing (midnight 2024 1 1) 90 ! 1))"
    by code_simp
  have m: "map fst (old_indices_backup_delete logs_listing (midnight 2024 1 1) 90)
           = [''logs-2023.01.01'', ''logs-2023.06.01'']" by code_simp
  have m': "map fst (old_indices_delete logs_listing (midnight 2024 1 1) 90)
           = [''logs-2023.01.01'', ''logs-2023.06.01'']" by code_simp
  have ok: "fst ?d = Inr ()" by code_simp
  note t = old_indices_oldest_first [OF h1 h2 h3 h4 h5 h6]
  have okb: "fst ?b = Inr ()" by code_simp
  have fs: "filter stopped_early (trace (snd ?b)) = []" by code_simp
  then have ns: "\<forall>ev\<in>set (trace (snd ?b)). \<not> stopped_early ev"
    by (simp add: filter_empty_conv)
  from t r m okb ns have "created_names (trace (snd ?b)) = [''logs-2023.01.01'', ''logs-2023.06.01'']"
    by simp
  moreover from t ok m' have "deleted_names (trace (snd ?d)) = [''logs-2023.01.01'', ''logs-2023.06.01'']"
    by simp
  ultimately show ?thesis using h1 h2 r l k m ok okb fs by blast
qed

section \<open>Polls that answered SUCCESS\<close>

lemma wait_event_not_succeeded:
  "wait_event cfg sn ev \<Longrightarrow> sn' \<noteq> sn \<Longrightarrow> \<not> succeeded_poll repo sn' ev"
  by (induction repo sn' ev rule: succeeded_poll.induct) auto

lemma wait_loop_polls:
  "wait_loop env cfg n sn retries s = (Inr r, s') \<Longrightarrow>
   \<exists>evs. trace s' = trace s @ evs \<and>
     (r < snapshot_max_retries cfg \<longrightarrow> (\<exists>ev\<in>set evs. succeeded_poll (repository_name cfg) sn ev)) \<and>
     (r \<ge> snapshot_max_retries cfg \<longrightarrow> (\<forall>ev\<in>set evs. \<not> succeeded_poll (repository_name cfg) sn ev))"
proof (induction env cfg n sn retries s arbitrary: s' rule: wait_loop.induct)
  case (1 env cfg n sn retries s)
  let ?repo = "repository_name cfg"
  show ?case
  proof (cases "retries < snapshot_max_retries cfg")
    case False
    with "1.prems" have "s' = s" "r = retries" by (simp_all add: wait_loop_exit)
    with False show ?thesis by simp
  next
    case lt: True
    obtain r0 s1 where c1: "call (env_snapshot_status env ?repo sn) (SnapshotStatus ?repo sn) s = (r0, s1)"
      by (rule prod.exhaust)
    have t1: "trace s1 = trace s @ [SnapshotStatus ?repo sn r0]" using c1 by (rule call_trace)
    show ?thesis
    proof (cases r0)
      case (Inl e)
      with lt c1 "1.prems" show ?thesis by (simp add: wait_loop_raise)
    next
      case (Inr resp)
      note c1' = c1 [unfolded Inr]
      show ?thesis
      proof (cases "snapshot_state resp")
        case (Inl e)
        with lt c1' "1.prems" show ?thesis by (simp add: wait_loop_malformed)
      next
        case st: (Inr st)
        consider (ok) "st = JStr ''SUCCESS''" | (bad) "st = JStr ''FAILED'' \<or> st = JStr ''PARTIAL''"
          | (go) "st \<noteq> JStr ''SUCCESS''" "st \<noteq> JStr ''FAILED''" "st \<noteq> JStr ''PARTIAL''"
          by blast
        then show ?thesis
        proof cases
          case ok
          with lt c1' st "1.prems" have "r = retries" "s' = s1" by (simp_all add: wait_loop_success)
          with t1 Inr st ok lt show ?thesis by simp
        next
          case bad
          from wait_loop_failed [OF lt c1' st bad] "1.prems" show ?thesis by simp
        next
          case go
          let ?itv = "snapshot_retry_interval cfg"
          obtain r2 s2 where c2: "call (env_sleep env ?itv) (Sleep ?itv) (print_line (MsgWaiting sn) s1) = (r2, s2)"
            by (rule prod.exhaust)
          have t2: "trace s2 = trace s @ [SnapshotStatus ?repo sn (Inr resp), Print (MsgWaiting sn), Sleep ?itv r2]"
            using call_trace [OF c2] t1 Inr by simp
          show ?thesis
          proof (cases r2)
            case (Inl e)
            from wait_loop_sleep_raise [OF lt c1' st go c2 [unfolded Inl]] "1.prems" show ?thesis by simp
          next
            case (Inr u)
            note c2' = c2 [unfolded Inr]
            have rec: "wait_loop env cfg n sn (retries + 1) s2 = (Inr r, s')"
              using wait_loop_again [OF lt c1' st go c2'] "1.prems" by simp
            have nfp: "\<not> (st = JStr ''FAILED'' \<or> st = JStr ''PARTIAL'')" using go by simp
            from "1.IH" [OF lt c1' [symmetric] refl st go(1) nfp c2' [symmetric] refl rec]
            obtain evs where e: "trace s' = trace s2 @ evs"
              "r < snapshot_max_retries cfg \<longrightarrow> (\<exists>ev\<in>set evs. succeeded_poll ?repo sn ev)"
              "r \<ge> snapshot_max_retries cfg \<longrightarrow> (\<forall>ev\<in>set evs. \<not> succeeded_poll ?repo sn ev)" by auto
            let ?evs = "[SnapshotStatus ?repo sn (Inr resp), Print (MsgWaiting sn), Sleep ?itv (Inr u)] @ evs"
            have "trace s' = trace s @ ?evs" using e(1) t2 Inr by simp
            moreover have "r < snapshot_max_retries cfg \<longrightarrow> (\<exists>ev\<in>set ?evs. succeeded_poll ?repo sn ev)"
              using e(2) by auto
            moreover have "r \<ge> snapshot_max_retries cfg \<longrightarrow> (\<forall>ev\<in>set ?evs. \<not> succeeded_poll ?repo sn ev)"
              using e(3) st go by auto
            ultimately show ?thesis by blast
          qed
        qed
      qed
    qed
  qed
qed

section \<open>An index is deleted only after its snapshot succeeded\<close>

lemma archive_ok_append:
  "archive_ok cfg now xs \<Longrightarrow> archive_ok cfg now ys \<Longrightarrow> archive_ok cfg now (xs @ ys)"
  unfolding archive_ok_def by (simp, blast)

lemma quiet_archive_ok: "quiet evs \<Longrightarrow> archive_ok cfg now evs"
  by (auto simp: quiet_def archive_ok_def)

lemma not_succeeded_create [simp]: "\<not> succeeded_poll repo sn (SnapshotCreate a b c d)"
  by simp

lemma backup_delete_index_archive:
  assumes run: "backup_delete_index env cfg now (n, d) s = (c, s')"
  shows "\<exists>evs. trace s' = trace s @ evs \<and> archive_ok cfg now evs"
  using run
proof (cases rule: backup_delete_index_cases)
  case (create_raised e s1)
  from backup_delete_handlers_events [OF create_raised(2)] call_trace [OF create_raised(1)]
  show ?thesis by (auto simp: archive_ok_def)
next
  case (wait_raised a s1 e s2)
  from wait_loop_events [OF wait_raised(2)] call_trace [OF wait_raised(1)] obtain W where
    w: "trace s2 = trace s @ [SnapshotCreate (repository_name cfg) (snapshot_name_of n now) n (Inr a),
          Print (MsgSnapshotCreated n (snapshot_name_of n now))] @ W"
       "\<forall>ev\<in>set W. wait_event cfg (snapshot_name_of n now) ev" by auto
  note q = wait_events_quiet [OF w(2)]
  have nc: "\<And>repo sn m r. SnapshotCreate repo sn m r \<notin> set W" using w(2) by auto
  from backup_delete_handlers_events [OF wait_raised(3)] w(1) q nc show ?thesis
    by (auto simp: archive_ok_def)
next
  case (timed_out a s1 retries s2)
  from wait_loop_events [OF timed_out(2)] call_trace [OF timed_out(1)] obtain W where
    w: "trace s2 = trace s @ [SnapshotCreate (repository_name cfg) (snapshot_name_of n now) n (Inr a),
          Print (MsgSnapshotCreated n (snapshot_name_of n now))] @ W"
       "\<forall>ev\<in>set W. wait_event cfg (snapshot_name_of n now) ev" by auto
  note q = wait_events_quiet [OF w(2)]
  have nc: "\<And>repo sn m r. SnapshotCreate repo sn m r \<notin> set W" using w(2) by auto
  from timed_out(5) w(1) q nc show ?thesis
    by (auto simp: archive_ok_def)
next
  case (delete_raised a s1 retries s2 e s3)
  from wait_loop_events [OF delete_raised(2)] call_trace [OF delete_raised(1)] obtain W where
    w: "trace s2 = trace s @ [SnapshotCreate (repository_name cfg) (snapshot_name_of n now) n (Inr a),
          Print (MsgSnapshotCreated n (snapshot_name_of n now))] @ W"
       "\<forall>ev\<in>set W. wait_event cfg (snapshot_name_of n now) ev" by auto
  from wait_loop_polls [OF delete_raised(2)] delete_raised(3) w(1) call_trace [OF delete_raised(1)] have
    sp: "\<exists>ev\<in>set W. succeeded_poll (repository_name cfg) (snapshot_name_of n now) ev" by auto
  note q = wait_events_quiet [OF w(2)]
  have nc: "\<And>repo sn m r. SnapshotCreate repo sn m r \<notin> set W" using w(2) by auto
  from backup_delete_handlers_events [OF delete_raised(5)] call_trace [OF delete_raised(4)] w(1) q nc sp
  show ?thesis by (auto simp: archive_ok_def)
next
  case (disk_raised a s1 retries s2 b s3 e s4)
  from wait_loop_events [OF disk_raised(2)] call_trace [OF disk_raised(1)] obtain W where
    w: "trace s2 = trace s @ [SnapshotCreate (repository_name cfg) (snapshot_name_of n now) n (Inr a),
          Print (MsgSnapshotCreated n (snapshot_name_of n now))] @ W"
       "\<forall>ev\<in>set W. wait_event cfg (snapshot_name_of n now) ev" by auto
  from wait_loop_polls [OF disk_raised(2)] disk_raised(3) w(1) call_trace [OF disk_raised(1)] have
    sp: "\<exists>ev\<in>set W. succeeded_poll (repository_name cfg) (snapshot_name_of n now) ev" by auto
  note q = wait_events_quiet [OF w(2)]
  have nc: "\<And>repo sn m r. SnapshotCreate repo sn m r \<notin> set W" using w(2) by auto
  from backup_delete_handlers_events [OF disk_raised(6)] check_disk_space_events [OF disk_raised(5)]
    call_trace [OF disk_raised(4)] w(1) q nc sp
  show ?thesis by (auto simp: archive_ok_def)
next
  case (disk_exceeded a s1 retries s2 b s3 p s4)
  from wait_loop_events [OF disk_exceeded(2)] call_trace [OF disk_exceeded(1)] obtain W where
    w: "trace s2 = trace s @ [SnapshotCreate (repository_name cfg) (snapshot_name_of n now) n (Inr a),
          Print (MsgSnapshotCreated n (snapshot_name_of n now))] @ W"
       "\<forall>ev\<in>set W. wait_event cfg (snapshot_name_of n now) ev" by auto
  from wait_loop_polls [OF disk_exceeded(2)] disk_exceeded(3) w(1) call_trace [OF disk_exceeded(1)] have
    sp: "\<exists>ev\<in>set W. succeeded_poll (repository_name cfg) (snapshot_name_of n now) ev" by auto
  note q = wait_events_quiet [OF w(2)]
  have nc: "\<And>repo sn m r. SnapshotCreate repo sn m r \<notin> set W" using w(2) by auto
  from disk_exceeded(8) check_disk_space_events [OF disk_exceeded(5)]
    call_trace [OF disk_exceeded(4)] w(1) q nc sp
  show ?thesis by (auto simp: archive_ok_def)
next
  case (archived a s1 retries s2 b s3 p s4)
  from wait_loop_events [OF archived(2)] call_trace [OF archived(1)] obtain W where
    w: "trace s2 = trace s @ [SnapshotCreate (repository_name cfg) (snapshot_name_of n now) n (Inr a),
          Print (MsgSnapshotCreated n (snapshot_name_of n now))] @ W"
       "\<forall>ev\<in>set W. wait_event cfg (snapshot_name_of n now) ev" by auto
  from wait_loop_polls [OF archived(2)] archived(3) w(1) call_trace [OF archived(1)] have
    sp: "\<exists>ev\<in>set W. succeeded_poll (repository_name cfg) (snapshot_name_of n now) ev" by auto
  note q = wait_events_quiet [OF w(2)]
  have nc: "\<And>repo sn m r. SnapshotCreate repo sn m r \<notin> set W" using w(2) by auto
  from archived(8) check_disk_space_events [OF archived(5)]
    call_trace [OF archived(4)] w(1) q nc sp
  show ?thesis by (auto simp: archive_ok_def)
qed

lemma backup_delete_loop_archive:
  "backup_delete_loop env cfg now xs s = (c, s') \<Longrightarrow>
   \<exists>evs. trace s' = trace s @ evs \<and> archive_ok cfg now evs"
proof (induction xs arbitrary: s)
  case Nil
  then show ?case by (simp add: archive_ok_def)
next
  case (Cons item xs)
  obtain n d where item: "item = (n, d)" by (cases item)
  obtain c1 s1 where it: "backup_delete_index env cfg now (n, d) s = (c1, s1)" by (rule prod.exhaust)
  from backup_delete_index_archive [OF it] obtain evs1 where
    e1: "trace s1 = trace s @ evs1" "archive_ok cfg now evs1" by blast
  show ?case
  proof (cases "c1 = Next")
    case False
    with Cons.prems it item have "s' = s1" by (cases c1; simp)+
    with e1 show ?thesis by blast
  next
    case True
    with Cons.prems it item have "backup_delete_loop env cfg now xs s1 = (c, s')" by simp
    from Cons.IH [OF this] obtain evs2 where
      e2: "trace s' = trace s1 @ evs2" "archive_ok cfg now evs2" by blast
    have "trace s' = trace s @ (evs1 @ evs2)" using e1(1) e2(1) by simp
    with archive_ok_append [OF e1(2) e2(2)] show ?thesis by blast
  qed
qed


text \<open>
  C1. In backup_delete mode, an index whose snapshot request was acknowledged and whose
  polling loop used up its retries without a SUCCESS answer is not deleted.
  For one iteration: if the request returns and the \<open>while\<close> loop is left with
  \<open>retries >= snapshot_max_retries\<close>, the iteration prints the time-out line and goes on to
  the next index; it has made no \<open>indices.delete\<close> call, and none of its polls answered
  SUCCESS.
  For the whole run: if the snapshot request for an index was acknowledged and no poll of
  that snapshot answered SUCCESS, no \<open>indices.delete\<close> call of the run names that index.
\<close>

theorem exhausted_retries_keep_the_index:
  "(call (env_snapshot_create env (repository_name cfg) (snapshot_name_of index_name current_date) index_name)
         (SnapshotCreate (repository_name cfg) (snapshot_name_of index_name current_date) index_name) s0
      = (Inr a, s1) \<longrightarrow>
    wait_loop env cfg index_name (snapshot_name_of index_name current_date) 0
      (print_line (MsgSnapshotCreated index_name (snapshot_name_of index_name current_date)) s1)
      = (Inr retries, s2) \<longrightarrow>
    retries \<ge> snapshot_max_retries cfg \<longrightarrow>
      backup_delete_index env cfg current_date (index_name, creation_date) s0
        = (Next, print_line (MsgTimedOut index_name) s2)
      \<and> (\<exists>it. trace (print_line (MsgTimedOut index_name) s2) = trace s0 @ it \<and> deleted_names it = [] \<and>
               (\<forall>ev\<in>set it. \<not> succeeded_poll (repository_name cfg)
                                   (snapshot_name_of index_name current_date) ev)))
   \<and> (list_backup_delete_old_indices env cfg s = (res, s') \<longrightarrow> trace s' = trace s @ evs \<longrightarrow>
        SnapshotCreate repo sn index_name (Inr a) \<in> set evs \<longrightarrow>
        (\<forall>ev\<in>set evs. \<not> succeeded_poll repo sn ev) \<longrightarrow>
          index_name \<notin> set (deleted_names evs))"
proof (intro conjI impI)
  let ?sn = "snapshot_name_of index_name current_date"
  assume c1: "call (env_snapshot_create env (repository_name cfg) ?sn index_name)
                (SnapshotCreate (repository_name cfg) ?sn index_name) s0 = (Inr a, s1)"
    and c2: "wait_loop env cfg index_name ?sn 0 (print_line (MsgSnapshotCreated index_name ?sn) s1)
               = (Inr retries, s2)"
    and ge: "snapshot_max_retries cfg \<le> retries"
  from index_of_try [OF try_timed_out [OF c1 c2 ge]]
  show "backup_delete_index env cfg current_date (index_name, creation_date) s0
          = (Next, print_line (MsgTimedOut index_name) s2)" by simp
  from wait_loop_events [OF c2] obtain W where
    w: "trace s2 = trace (print_line (MsgSnapshotCreated index_name ?sn) s1) @ W"
       "\<forall>ev\<in>set W. wait_event cfg ?sn ev" by blast
  from wait_loop_polls [OF c2] ge obtain W' where
    w': "trace s2 = trace (print_line (MsgSnapshotCreated index_name ?sn) s1) @ W'"
        "\<forall>ev\<in>set W'. \<not> succeeded_poll (repository_name cfg) ?sn ev" by auto
  from w(1) w'(1) have "W' = W" by simp
  let ?it = "[SnapshotCreate (repository_name cfg) ?sn index_name (Inr a),
              Print (MsgSnapshotCreated index_name ?sn)] @ W @ [Print (MsgTimedOut index_name)]"
  have "trace (print_line (MsgTimedOut index_name) s2) = trace s0 @ ?it"
    using w(1) call_trace [OF c1] by simp
  moreover have "deleted_names ?it = []" using wait_events_quiet [OF w(2)] by simp
  moreover have "\<forall>ev\<in>set ?it. \<not> succeeded_poll (repository_name cfg) ?sn ev"
    using w'(2) \<open>W' = W\<close> by simp
  ultimately show "\<exists>it. trace (print_line (MsgTimedOut index_name) s2) = trace s0 @ it \<and>
                        deleted_names it = [] \<and>
                        (\<forall>ev\<in>set it. \<not> succeeded_poll (repository_name cfg) ?sn ev)"
    by blast
next
  assume run: "list_backup_delete_old_indices env cfg s = (res, s')"
    and tr: "trace s' = trace s @ evs"
    and cr: "SnapshotCreate repo sn index_name (Inr a) \<in> set evs"
    and np: "\<forall>ev\<in>set evs. \<not> succeeded_poll repo sn ev"
  from backup_delete_run [OF run] tr have
    "quiet evs \<or>
     (\<exists>now pre lp c s4 indices. evs = pre @ lp \<and> quiet pre \<and> trace s4 = trace s @ pre \<and>
        backup_delete_loop env cfg now
          (old_indices_backup_delete indices now (redundancy_period_days cfg)) s4 = (c, s'))"
    by fastforce
  then show "index_name \<notin> set (deleted_names evs)"
  proof
    assume "quiet evs" then show ?thesis by (simp add: quiet_def)
  next
    assume "\<exists>now pre lp c s4 indices. evs = pre @ lp \<and> quiet pre \<and> trace s4 = trace s @ pre \<and>
        backup_delete_loop env cfg now
          (old_indices_backup_delete indices now (redundancy_period_days cfg)) s4 = (c, s')"
    then obtain now pre lp c s4 indices where
      e: "evs = pre @ lp" "quiet pre" "trace s4 = trace s @ pre"
         "backup_delete_loop env cfg now
            (old_indices_backup_delete indices now (redundancy_period_days cfg)) s4 = (c, s')"
      by blast
    from backup_delete_loop_archive [OF e(4)] obtain lp' where
      l: "trace s' = trace s4 @ lp'" "archive_ok cfg now lp'" by blast
    from l(1) e(1,3) tr have "lp' = lp" by simp
    with l(2) have ok: "archive_ok cfg now lp" by simp
    from cr e(1,2) have "SnapshotCreate repo sn index_name (Inr a) \<in> set lp" by (auto simp: quiet_def)
    with ok have nm: "repo = repository_name cfg" "sn = snapshot_name_of index_name now"
      unfolding archive_ok_def by blast+
    show ?thesis
    proof
      assume "index_name \<in> set (deleted_names evs)"
      with e(1,2) have "index_name \<in> set (deleted_names lp)" by (simp add: quiet_def)
      with ok obtain ev where "ev \<in> set lp"
        "succeeded_poll (repository_name cfg) (snapshot_name_of index_name now) ev"
        unfolding archive_ok_def by blast
      with nm np e(1) show False by auto
    qed
  qed
qed


text \<open>
  Two retries and snapshots that stay IN_PROGRESS: the loop is left with \<open>retries = 2\<close>,
  the iteration goes on, and the run never deletes the index.
\<close>

theorem exhausted_retries_keep_the_index_witness:
  "snapshot_max_retries (settings 2) \<le> 2
   \<and> fst (wait_loop stuck_cluster (settings 2) ''logs-2023.01.01''
            (snapshot_name_of ''logs-2023.01.01'' (midnight 2024 1 1)) 0
            (print_line (MsgSnapshotCreated ''logs-2023.01.01''
                           (snapshot_name_of ''logs-2023.01.01'' (midnight 2024 1 1)))
               (snd (call (env_snapshot_create stuck_cluster ''repo''
                             (snapshot_name_of ''logs-2023.01.01'' (midnight 2024 1 1)) ''logs-2023.01.01'')
                          (SnapshotCreate ''repo''
                             (snapshot_name_of ''logs-2023.01.01'' (midnight 2024 1 1)) ''logs-2023.01.01'')
                          start)))) = Inr 2
   \<and> fst (backup_delete_index stuck_cluster (settings 2) (midnight 2024 1 1)
             (''logs-2023.01.01'', midnight 2023 1 1) start) = Next
   \<and> SnapshotCreate ''repo'' (snapshot_name_of ''logs-2023.01.01'' (midnight 2024 1 1))
         ''logs-2023.01.01'' (Inr ack)
        \<in> set (trace (snd (list_backup_delete_old_indices stuck_cluster (settings 2) start)))
   \<and> filter (succeeded_poll ''repo'' (snapshot_name_of ''logs-2023.01.01'' (midnight 2024 1 1)))
        (trace (snd (list_backup_delete_old_indices stuck_cluster (settings 2) start))) = []
   \<and> ''logs-2023.01.01''
        \<notin> set (deleted_names (trace (snd (list_backup_delete_old_indices stuck_cluster (settings 2) start))))"
proof -
  let ?n = "''logs-2023.01.01''"
  let ?now = "midnight 2024 1 1"
  let ?sn = "snapshot_name_of ?n ?now"
  let ?c = "call (env_snapshot_create stuck_cluster ''repo'' ?sn ?n) (SnapshotCreate ''repo'' ?sn ?n) start"
  let ?w = "wait_loop stuck_cluster (settings 2) ?n ?sn 0 (print_line (MsgSnapshotCreated ?n ?sn) (snd ?c))"
  let ?run = "list_backup_delete_old_indices stuck_cluster (settings 2) start"
  have rn: "repository_name (settings 2) = ''repo''" by (simp add: settings_def)
  have h1: "?c = (Inr ack, snd ?c)" by code_simp
  have w2: "fst ?w = Inr 2" by code_simp
  have h2: "?w = (Inr 2, snd ?w)" using w2 by (simp add: prod_eq_iff)
  have h3: "snapshot_max_retries (settings 2) \<le> 2" by (simp add: settings_def)
  have h4: "?run = (fst ?run, snd ?run)" by simp
  have h5: "trace (snd ?run) = trace start @ trace (snd ?run)" by (simp add: start_def)
  have h6: "SnapshotCreate ''repo'' ?sn ?n (Inr ack) \<in> set (trace (snd ?run))" by code_simp
  have f7: "filter (succeeded_poll ''repo'' ?sn) (trace (snd ?run)) = []" by code_simp
  then have h7: "\<forall>ev\<in>set (trace (snd ?run)). \<not> succeeded_poll ''repo'' ?sn ev"
    by (simp add: filter_empty_conv)
  note t = exhausted_retries_keep_the_index [of stuck_cluster "settings 2" ?n ?now start ack "snd ?c"
             2 "snd ?w" "midnight 2023 1 1" start "fst ?run" "snd ?run" "trace (snd ?run)" "''repo''" ?sn]
  from t h1 h2 h3 rn have
    "backup_delete_index stuck_cluster (settings 2) ?now (?n, midnight 2023 1 1) start
       = (Next, print_line (MsgTimedOut ?n) (snd ?w))" by simp
  then have a: "fst (backup_delete_index stuck_cluster (settings 2) ?now (?n, midnight 2023 1 1) start) = Next"
    by simp
  from t h4 h5 h6 h7 have b: "?n \<notin> set (deleted_names (trace (snd ?run)))" by blast
  from h3 w2 a h6 f7 b show ?thesis by blast
qed

end
